theory Spec2Isabelle
  imports Main "HOL-Library.Word" "HOL-Library.Code_Target_Nat"
begin

unbundle bit_operations_syntax

section \<open>Flash EEPROM emulation for the CH32V003 (EEPROM.c, EEPROM.h)\<close>

subsection \<open>Constants of EEPROM.h and EEPROM.c\<close>

type_synonym u8 = "8 word"
type_synonym u16 = "16 word"

definition EEPROM_OK :: u8 where
  "EEPROM_OK = 0"

definition EEPROM_ERROR :: u8 where
  "EEPROM_ERROR = 1"

text \<open>
  Addresses are \<open>uint32_t\<close> in the source. The library only ever forms
  \<open>EEPROM_ADDRESS + 4 + 6 * i + k\<close> with \<open>i \<le> 10\<close> and \<open>k \<le> 4\<close>, far below
  \<open>2 ^ 32\<close>, so addresses are natural numbers here.
\<close>

definition EEPROM_ADDRESS :: nat where
  "EEPROM_ADDRESS = 0x08003C00"

definition EEPROM_MARKER :: u16 where
  "EEPROM_MARKER = 0x5A5A"

subsection \<open>The flash controller\<close>

text \<open>
  Modelled from the spec: the flash controller behind \<open>FLASH->STATR\<close>, \<open>FLASH->CTLR\<close>,
  \<open>FLASH->KEYR\<close> and \<open>FLASH->ADDR\<close> (header ch32v003fun.h and the silicon are not part
  of the repository). The spec's section 6 gives the contract: a region erase resets the
  whole region to the all-ones state, a half-word program clears bits per the value
  written, both complete after a bounded busy time or run into the timeout.

  \<^item> \<open>mem\<close> is the erase page that starts at \<open>EEPROM_ADDRESS\<close>, one half-word per even
    byte address;
  \<^item> \<open>busy\<close> is the number of further polling rounds for which \<open>STATR\<close> shows \<open>BSY\<close>;
  \<^item> \<open>lock\<close>, \<open>pg\<close>, \<open>per\<close> are the \<open>LOCK\<close>, \<open>PG\<close> and \<open>PER\<close> bits of \<open>CTLR\<close>;
  \<^item> \<open>env\<close> is the fate of the operations still to be started, one event per erase
    or program operation: the operation takes effect or has no effect on the array, and
    keeps the controller busy for the given number of polling rounds. An exhausted list
    means ideal hardware.

  An operation that takes effect does so in full when it is started: an erase sets every
  half-word of the page to \<open>0xFFFF\<close>, a program operation replaces its cell by the
  bitwise AND of the cell and the value. No operation changes a cell other than its own.
  The timeout of the library is reached when the controller stays busy for 50000 polling
  rounds or more.
\<close>

datatype hw_event = Completes nat | Fizzles nat

record flash =
  mem :: "nat \<Rightarrow> u16"
  busy :: nat
  lock :: bool
  pg :: bool
  per :: bool
  env :: "hw_event list"

definition next_event :: "flash \<Rightarrow> hw_event" where
  "next_event s = (case env s of [] \<Rightarrow> Completes 0 | e # es \<Rightarrow> e)"

fun duration :: "hw_event \<Rightarrow> nat" where
  "duration (Completes n) = n"
| "duration (Fizzles n) = n"

fun takes_effect :: "hw_event \<Rightarrow> bool" where
  "takes_effect (Completes n) = True"
| "takes_effect (Fizzles n) = False"

text \<open>A volatile 16-bit read, \<open>*(volatile uint16_t*)a\<close>.\<close>

definition load16 :: "nat \<Rightarrow> flash \<Rightarrow> u16 \<times> flash" where
  "load16 a s = (mem s a, s)"

text \<open>
  A volatile 16-bit write, \<open>*(volatile uint16_t*)a = d\<close>: ignored unless the controller
  is unlocked and in programming mode; otherwise it starts a program operation, which
  can only clear bits of the cell.
\<close>

definition store16 :: "nat \<Rightarrow> u16 \<Rightarrow> flash \<Rightarrow> flash" where
  "store16 a d s =
     (if lock s \<or> \<not> pg s then s
      else s\<lparr>mem := (if takes_effect (next_event s) then (mem s)(a := mem s a AND d) else mem s),
             busy := duration (next_event s),
             env := tl (env s)\<rparr>)"

text \<open>
  \<open>FLASH->ADDR = EEPROM_ADDRESS; FLASH->CTLR |= FLASH_CTLR_STRT\<close>: ignored unless the
  controller is unlocked and in page-erase mode; otherwise it starts the erase of the page.
\<close>

definition start_erase :: "flash \<Rightarrow> flash" where
  "start_erase s =
     (if lock s \<or> \<not> per s then s
      else s\<lparr>mem := (if takes_effect (next_event s) then (\<lambda>a. 0xFFFF) else mem s),
             busy := duration (next_event s),
             env := tl (env s)\<rparr>)"

subsection \<open>The primitives of EEPROM.c\<close>

text \<open>\<open>EEPROM_init\<close> has an empty body.\<close>

definition EEPROM_init :: "flash \<Rightarrow> flash" where
  "EEPROM_init s = s"

definition EEPROM_calcCRC :: "u16 \<Rightarrow> u16 \<Rightarrow> u16" where
  "EEPROM_calcCRC vid val = vid XOR val"

text \<open>
  \<open>while ((FLASH->STATR & FLASH_STATR_BSY) && timeout) timeout--;\<close> One polling round
  passes per iteration. \<open>timeout\<close> is a \<open>uint32_t\<close> that starts at 50000 and is only
  decremented while non-zero, so it never wraps.
\<close>

function wait_loop :: "nat \<Rightarrow> flash \<Rightarrow> nat \<times> flash" where
  "wait_loop timeout s =
     (if 0 < busy s \<and> 0 < timeout then wait_loop (timeout - 1) (s\<lparr>busy := busy s - 1\<rparr>)
      else (timeout, s))"
  by pat_completeness auto
termination
  by (relation "measure (\<lambda>(timeout, s). timeout)") auto

declare wait_loop.simps [simp del]

definition EEPROM_waitForLastOperation :: "flash \<Rightarrow> u8 \<times> flash" where
  "EEPROM_waitForLastOperation s =
     (case wait_loop 50000 s of (timeout, s1) \<Rightarrow>
        (if 0 < timeout then EEPROM_OK else EEPROM_ERROR, s1))"

text \<open>Writing \<open>FLASH_KEY1\<close>, then \<open>FLASH_KEY2\<close> to \<open>KEYR\<close> clears the \<open>LOCK\<close> bit.\<close>

definition EEPROM_unlockFlash :: "flash \<Rightarrow> flash" where
  "EEPROM_unlockFlash s = (if lock s then s\<lparr>lock := False\<rparr> else s)"

definition EEPROM_lockFlash :: "flash \<Rightarrow> flash" where
  "EEPROM_lockFlash s = s\<lparr>lock := True\<rparr>"

definition EEPROM_format :: "flash \<Rightarrow> u8 \<times> flash" where
  "EEPROM_format s =
     (case EEPROM_waitForLastOperation (EEPROM_unlockFlash s) of (status, s1) \<Rightarrow>
        if status \<noteq> EEPROM_OK then (status, EEPROM_lockFlash s1)
        else
          (case EEPROM_waitForLastOperation (start_erase (s1\<lparr>per := True\<rparr>)) of (status, s2) \<Rightarrow>
             (case load16 EEPROM_ADDRESS (s2\<lparr>per := False\<rparr>) of (first, s3) \<Rightarrow>
                if first \<noteq> 0xFFFF then (EEPROM_ERROR, EEPROM_lockFlash s3)
                else (status, EEPROM_lockFlash s3))))"

definition EEPROM_writeHalfWord :: "nat \<Rightarrow> u16 \<Rightarrow> flash \<Rightarrow> u8 \<times> flash" where
  "EEPROM_writeHalfWord address data s =
     (case EEPROM_waitForLastOperation (EEPROM_unlockFlash s) of (status, s1) \<Rightarrow>
        if status \<noteq> EEPROM_OK then (status, EEPROM_lockFlash s1)
        else
          (case EEPROM_waitForLastOperation (store16 address data (s1\<lparr>pg := True\<rparr>)) of
             (status, s2) \<Rightarrow>
               (case load16 address (s2\<lparr>pg := False\<rparr>) of (readback, s3) \<Rightarrow>
                  if readback \<noteq> data then (EEPROM_ERROR, EEPROM_lockFlash s3)
                  else (status, EEPROM_lockFlash s3))))"

text \<open>The C function returns the comparison as a \<open>uint8_t\<close>, 1 or 0.\<close>

definition EEPROM_isInitialized :: "flash \<Rightarrow> u8 \<times> flash" where
  "EEPROM_isInitialized s =
     (case load16 EEPROM_ADDRESS s of (marker, s1) \<Rightarrow>
        (if marker = EEPROM_MARKER then 1 else 0, s1))"

subsection \<open>Lookup\<close>

text \<open>
  The loop of \<open>EEPROM_findVar\<close>, entered with \<open>i = 0\<close> and
  \<open>currentAddr = EEPROM_ADDRESS + 4\<close>. The result \<open>Some a\<close> stands for "return 1 with
  \<open>*addr = a\<close>" (the store through \<open>addr\<close> is skipped when the caller passes \<open>NULL\<close>),
  \<open>None\<close> for "return 0". In \<open>(entryId & 0xFF) == id\<close> both sides are promoted to \<open>int\<close>,
  so the 8-bit id is zero-extended.
\<close>

function findVar_loop :: "nat \<Rightarrow> nat \<Rightarrow> u8 \<Rightarrow> flash \<Rightarrow> nat option \<times> flash" where
  "findVar_loop i currentAddr vid s =
     (if i < 10 then
        (case load16 currentAddr s of (entryId, s1) \<Rightarrow>
           if entryId = 0xFFFF then (None, s1)
           else
             (case load16 (currentAddr + 2) s1 of (entryValue, s2) \<Rightarrow>
                (case load16 (currentAddr + 4) s2 of (entryCRC, s3) \<Rightarrow>
                   if entryId AND 0xFF = ucast vid \<and> entryCRC = EEPROM_calcCRC entryId entryValue
                   then (Some currentAddr, s3)
                   else findVar_loop (i + 1) (currentAddr + 6) vid s3)))
      else (None, s))"
  by pat_completeness auto
termination
  by (relation "measure (\<lambda>(i, currentAddr, vid, s). 10 - i)") auto

declare findVar_loop.simps [simp del]

definition EEPROM_findVar :: "u8 \<Rightarrow> flash \<Rightarrow> nat option \<times> flash" where
  "EEPROM_findVar vid s =
     (case EEPROM_isInitialized s of (init, s1) \<Rightarrow>
        if init = 0 then (None, s1)
        else findVar_loop 0 (EEPROM_ADDRESS + 4) vid s1)"

definition EEPROM_readVar :: "u8 \<Rightarrow> flash \<Rightarrow> u16 \<times> flash" where
  "EEPROM_readVar vid s =
     (case EEPROM_findVar vid s of
        (Some addr, s1) \<Rightarrow> load16 (addr + 2) s1
      | (None, s1) \<Rightarrow> (0xFFFF, s1))"

definition EEPROM_varExists :: "u8 \<Rightarrow> flash \<Rightarrow> u8 \<times> flash" where
  "EEPROM_varExists vid s =
     (case EEPROM_findVar vid s of
        (Some addr, s1) \<Rightarrow> (1, s1)
      | (None, s1) \<Rightarrow> (0, s1))"

subsection \<open>Saving\<close>

text \<open>
  The working set \<open>uint8_t varIds[10]; uint16_t varValues[10]; uint8_t varCount\<close>: the
  list holds the pairs \<open>(varIds[k], varValues[k])\<close> for \<open>k < varCount\<close>, its length is
  \<open>varCount\<close>; the cells from \<open>varCount\<close> on are uninitialised and never read. The
  counter stays below 12, so the \<open>uint8_t\<close> never wraps.

  \<open>varIds[varCount] = vid; varValues[varCount] = val; varCount++;\<close> C leaves a store
  past the end of the two arrays undefined; the model reports it as a fault.
\<close>

datatype c_fault = OutOfBounds

type_synonym vars = "(u8 \<times> u16) list"

definition put_var :: "vars \<Rightarrow> u8 \<Rightarrow> u16 \<Rightarrow> c_fault + vars" where
  "put_var vs vid val = (if length vs < 10 then Inr (vs @ [(vid, val)]) else Inl OutOfBounds)"

text \<open>
  The scan loop of \<open>EEPROM_saveVar\<close> (lines 188 to 211): entries with the id being
  saved are skipped first, the others are kept when their check matches.
  \<open>varIds[varCount] = entryId & 0xFF\<close> truncates to \<open>uint8_t\<close>.
\<close>

function saveVar_scan :: "nat \<Rightarrow> nat \<Rightarrow> u8 \<Rightarrow> vars \<Rightarrow> flash \<Rightarrow> c_fault + (vars \<times> flash)" where
  "saveVar_scan i currentAddr vid vs s =
     (if i < 10 then
        (case load16 currentAddr s of (entryId, s1) \<Rightarrow>
           if entryId = 0xFFFF then Inr (vs, s1)
           else
             (case load16 (currentAddr + 2) s1 of (entryValue, s2) \<Rightarrow>
                (case load16 (currentAddr + 4) s2 of (entryCRC, s3) \<Rightarrow>
                   if entryId AND 0xFF = ucast vid
                   then saveVar_scan (i + 1) (currentAddr + 6) vid vs s3
                   else if entryCRC = EEPROM_calcCRC entryId entryValue
                   then
                     (case put_var vs (ucast (entryId AND 0xFF)) entryValue of
                        Inl e \<Rightarrow> Inl e
                      | Inr vs' \<Rightarrow> saveVar_scan (i + 1) (currentAddr + 6) vid vs' s3)
                   else saveVar_scan (i + 1) (currentAddr + 6) vid vs s3)))
      else Inr (vs, s))"
  by pat_completeness auto
termination
  by (relation "measure (\<lambda>(i, currentAddr, vid, vs, s). 10 - i)") auto

declare saveVar_scan.simps [simp del]

text \<open>
  Erase the page, write the marker, write the reserved half-word: lines 173 to 182 of
  \<open>EEPROM_saveVar\<close>, repeated at lines 220 to 229 and twice in \<open>EEPROM_saveVars\<close>
  (lines 266 to 275, 319 to 328). Every step returns its status at once when it is not
  \<open>EEPROM_OK\<close>.
\<close>

definition format_and_header :: "flash \<Rightarrow> u8 \<times> flash" where
  "format_and_header s =
     (case EEPROM_format s of (status, s1) \<Rightarrow>
        if status \<noteq> EEPROM_OK then (status, s1)
        else
          (case EEPROM_writeHalfWord EEPROM_ADDRESS EEPROM_MARKER s1 of (status, s2) \<Rightarrow>
             if status \<noteq> EEPROM_OK then (status, s2)
             else EEPROM_writeHalfWord (EEPROM_ADDRESS + 2) 0 s2))"

text \<open>
  The write loop (lines 234 to 252, again 333 to 351), over the working set in index
  order. \<open>uint16_t varId = varIds[i]\<close> zero-extends the stored 8-bit id.
\<close>

fun write_vars :: "vars \<Rightarrow> nat \<Rightarrow> flash \<Rightarrow> u8 \<times> flash" where
  "write_vars [] currentAddr s = (EEPROM_OK, s)"
| "write_vars ((varId8, varValue) # rest) currentAddr s =
     (case EEPROM_writeHalfWord currentAddr (ucast varId8) s of (status, s1) \<Rightarrow>
        if status \<noteq> EEPROM_OK then (status, s1)
        else
          (case EEPROM_writeHalfWord (currentAddr + 2) varValue s1 of (status, s2) \<Rightarrow>
             if status \<noteq> EEPROM_OK then (status, s2)
             else
               (case EEPROM_writeHalfWord (currentAddr + 4)
                       (EEPROM_calcCRC (ucast varId8) varValue) s2 of (status, s3) \<Rightarrow>
                  if status \<noteq> EEPROM_OK then (status, s3)
                  else write_vars rest (currentAddr + 6) s3)))"

text \<open>The rewrite phase shared by both save operations (lines 219 to 254, 318 to 353).\<close>

definition rewrite_page :: "vars \<Rightarrow> flash \<Rightarrow> u8 \<times> flash" where
  "rewrite_page vs s =
     (case format_and_header s of (status, s1) \<Rightarrow>
        if status \<noteq> EEPROM_OK then (status, s1)
        else write_vars vs (EEPROM_ADDRESS + 4) s1)"

definition EEPROM_saveVar :: "u8 \<Rightarrow> u16 \<Rightarrow> flash \<Rightarrow> c_fault + (u8 \<times> flash)" where
  "EEPROM_saveVar vid val s =
     (case EEPROM_isInitialized s of (init, s1) \<Rightarrow>
        if init = 0 then
          (case format_and_header s1 of (status, s2) \<Rightarrow>
             if status \<noteq> EEPROM_OK then Inr (status, s2)
             else
               (case put_var [] vid val of
                  Inl e \<Rightarrow> Inl e
                | Inr vs \<Rightarrow> Inr (rewrite_page vs s2)))
        else
          (case saveVar_scan 0 (EEPROM_ADDRESS + 4) vid [] s1 of
             Inl e \<Rightarrow> Inl e
           | Inr (vs0, s2) \<Rightarrow>
               (case put_var vs0 vid val of
                  Inl e \<Rightarrow> Inl e
                | Inr vs \<Rightarrow> Inr (rewrite_page vs s2))))"

text \<open>
  \<open>EEPROM_saveVars(ids, values, count)\<close>: the two arrays are lists; reading \<open>ids[j]\<close> or
  \<open>values[j]\<close> past the end of the caller's array is undefined in C and a fault here.
  The loop counters \<open>j\<close> stay at most \<open>count \<le> 255\<close>, so they do not wrap.

  The inner loop (lines 294 to 299); the result is \<open>skip\<close>.
\<close>

function id_listed :: "u8 list \<Rightarrow> nat \<Rightarrow> nat \<Rightarrow> u8 \<Rightarrow> c_fault + bool" where
  "id_listed ids count j baseId =
     (if j < count then
        (if j < length ids then
           (if ids ! j = baseId then Inr True else id_listed ids count (j + 1) baseId)
         else Inl OutOfBounds)
      else Inr False)"
  by pat_completeness auto
termination
  by (relation "measure (\<lambda>(ids, count, j, baseId). count - j)") auto

declare id_listed.simps [simp del]

text \<open>The scan loop of \<open>EEPROM_saveVars\<close> (lines 280 to 307).\<close>

function saveVars_scan ::
  "u8 list \<Rightarrow> nat \<Rightarrow> nat \<Rightarrow> nat \<Rightarrow> vars \<Rightarrow> flash \<Rightarrow> c_fault + (vars \<times> flash)" where
  "saveVars_scan ids count i currentAddr vs s =
     (if i < 10 then
        (case load16 currentAddr s of (entryId, s1) \<Rightarrow>
           if entryId = 0xFFFF then Inr (vs, s1)
           else
             (case load16 (currentAddr + 2) s1 of (entryValue, s2) \<Rightarrow>
                (case load16 (currentAddr + 4) s2 of (entryCRC, s3) \<Rightarrow>
                   if entryCRC = EEPROM_calcCRC entryId entryValue
                   then
                     (case id_listed ids count 0 (ucast (entryId AND 0xFF)) of
                        Inl e \<Rightarrow> Inl e
                      | Inr skip \<Rightarrow>
                          if \<not> skip then
                            (case put_var vs (ucast (entryId AND 0xFF)) entryValue of
                               Inl e \<Rightarrow> Inl e
                             | Inr vs' \<Rightarrow>
                                 saveVars_scan ids count (i + 1) (currentAddr + 6) vs' s3)
                          else saveVars_scan ids count (i + 1) (currentAddr + 6) vs s3)
                   else saveVars_scan ids count (i + 1) (currentAddr + 6) vs s3)))
      else Inr (vs, s))"
  by pat_completeness auto
termination
  by (relation "measure (\<lambda>(ids, count, i, currentAddr, vs, s). 10 - i)") auto

declare saveVars_scan.simps [simp del]

text \<open>
  The append loop (lines 311 to 316), with its guard \<open>if (varCount >= 10) break;\<close>
  ahead of the stores.
\<close>

function saveVars_append ::
  "u8 list \<Rightarrow> u16 list \<Rightarrow> nat \<Rightarrow> nat \<Rightarrow> vars \<Rightarrow> c_fault + vars" where
  "saveVars_append ids vals count j vs =
     (if j < count then
        (if 10 \<le> length vs then Inr vs
         else if j < length ids \<and> j < length vals then
           (case put_var vs (ids ! j) (vals ! j) of
              Inl e \<Rightarrow> Inl e
            | Inr vs' \<Rightarrow> saveVars_append ids vals count (j + 1) vs')
         else Inl OutOfBounds)
      else Inr vs)"
  by pat_completeness auto
termination
  by (relation "measure (\<lambda>(ids, vals, count, j, vs). count - j)") auto

declare saveVars_append.simps [simp del]

definition EEPROM_saveVars ::
  "u8 list \<Rightarrow> u16 list \<Rightarrow> u8 \<Rightarrow> flash \<Rightarrow> c_fault + (u8 \<times> flash)" where
  "EEPROM_saveVars ids vals count s =
     (case EEPROM_isInitialized s of (init, s1) \<Rightarrow>
        if init = 0 then
          (case format_and_header s1 of (status, s2) \<Rightarrow>
             if status \<noteq> EEPROM_OK then Inr (status, s2)
             else
               (case saveVars_append ids vals (unat count) 0 [] of
                  Inl e \<Rightarrow> Inl e
                | Inr vs \<Rightarrow> Inr (rewrite_page vs s2)))
        else
          (case saveVars_scan ids (unat count) 0 (EEPROM_ADDRESS + 4) [] s1 of
             Inl e \<Rightarrow> Inl e
           | Inr (vs0, s2) \<Rightarrow>
               (case saveVars_append ids vals (unat count) 0 vs0 of
                  Inl e \<Rightarrow> Inl e
                | Inr vs \<Rightarrow> Inr (rewrite_page vs s2))))"

subsection \<open>The layout of the page, as the spec describes it\<close>

text \<open>
  Header: marker at \<open>EEPROM_ADDRESS\<close>, reserved half-word at \<open>EEPROM_ADDRESS + 2\<close>.
  Entry slot \<open>k\<close> is the three half-words Id, Value, Check from \<open>slot_addr k\<close> on.
\<close>

type_synonym entry = "u16 \<times> u16 \<times> u16"

definition slot_addr :: "nat \<Rightarrow> nat" where
  "slot_addr k = EEPROM_ADDRESS + 4 + 6 * k"

definition entry_at :: "(nat \<Rightarrow> u16) \<Rightarrow> nat \<Rightarrow> entry" where
  "entry_at m k = (m (slot_addr k), m (slot_addr k + 2), m (slot_addr k + 4))"

text \<open>
  The slots a scan visits from slot \<open>i\<close> on: at most the ten slots, up to the first one
  whose Id half-word is the erased pattern.
\<close>

definition used_slots :: "(nat \<Rightarrow> u16) \<Rightarrow> nat \<Rightarrow> nat list" where
  "used_slots m i = takeWhile (\<lambda>k. m (slot_addr k) \<noteq> 0xFFFF) [i..<10]"

definition stored :: "(nat \<Rightarrow> u16) \<Rightarrow> entry list" where
  "stored m = map (entry_at m) (used_slots m 0)"

text \<open>An entry is live when its Check is the exclusive-or of its Id and Value.\<close>

fun live :: "entry \<Rightarrow> bool" where
  "live (i, v, c) = (c = i XOR v)"

fun low_id :: "entry \<Rightarrow> u8" where
  "low_id (i, v, c) = ucast i"

fun var_of :: "entry \<Rightarrow> u8 \<times> u16" where
  "var_of (i, v, c) = (ucast i, v)"

fun entry_of :: "u8 \<times> u16 \<Rightarrow> entry" where
  "entry_of (i, v) = (ucast i, v, ucast i XOR v)"

text \<open>
  The variables a page holds: the live entries in storage order, each as its low-8-bit
  id and its value; none when the marker is absent.
\<close>

definition live_vars :: "(nat \<Rightarrow> u16) \<Rightarrow> vars" where
  "live_vars m =
     (if m EEPROM_ADDRESS = EEPROM_MARKER then map var_of (filter live (stored m)) else [])"

text \<open>
  Lookup in the spec's words (section 4.1). Slot \<open>k\<close> matches the requested id when the
  low 8 bits of its Id equal the id and its Check is the exclusive-or of Id and Value. A
  scan visits slot \<open>k\<close> when it is one of the ten and no slot up to it has the erased
  pattern as its Id. Lookup is not found when the marker is absent, otherwise the first
  visited slot that matches.
\<close>

definition matches :: "u8 \<Rightarrow> (nat \<Rightarrow> u16) \<Rightarrow> nat \<Rightarrow> bool" where
  "matches vid m k \<longleftrightarrow>
     m (slot_addr k) AND 0xFF = ucast vid \<and>
     m (slot_addr k + 4) = m (slot_addr k) XOR m (slot_addr k + 2)"

definition visited :: "(nat \<Rightarrow> u16) \<Rightarrow> nat \<Rightarrow> bool" where
  "visited m k \<longleftrightarrow> k < 10 \<and> list_all (\<lambda>j. m (slot_addr j) \<noteq> 0xFFFF) [0..<Suc k]"

definition lookup_spec :: "u8 \<Rightarrow> (nat \<Rightarrow> u16) \<Rightarrow> nat option" where
  "lookup_spec vid m =
     (if m EEPROM_ADDRESS \<noteq> EEPROM_MARKER then None
      else map_option slot_addr (List.find (matches vid m) (used_slots m 0)))"

text \<open>
  The page a completed rewrite of the working set \<open>vs\<close> leaves: header, then one entry
  per variable, everything else erased.
\<close>

fun lay :: "vars \<Rightarrow> nat \<Rightarrow> (nat \<Rightarrow> u16) \<Rightarrow> (nat \<Rightarrow> u16)" where
  "lay [] a m = m"
| "lay ((i, v) # rest) a m = lay rest (a + 6) (m(a := ucast i, a + 2 := v, a + 4 := ucast i XOR v))"

definition erased :: "nat \<Rightarrow> u16" where
  "erased = (\<lambda>a. 0xFFFF)"

definition page_image :: "vars \<Rightarrow> (nat \<Rightarrow> u16)" where
  "page_image vs =
     lay vs (EEPROM_ADDRESS + 4) (erased(EEPROM_ADDRESS := EEPROM_MARKER, EEPROM_ADDRESS + 2 := 0))"

text \<open>A locked, idle controller on ideal hardware, holding the page \<open>m\<close>.\<close>

definition idle_flash :: "(nat \<Rightarrow> u16) \<Rightarrow> flash" where
  "idle_flash m = \<lparr>mem = m, busy = 0, lock = True, pg = False, per = False, env = []\<rparr>"

subsection \<open>The rewrite phase as a sequence of half-word programs\<close>

text \<open>
  The half-words the write loop programs for the working set \<open>vs\<close> from address \<open>a\<close> on,
  in order, and the whole plan of a rewrite after its erase: marker, reserved, entries.
\<close>

fun halfwords :: "vars \<Rightarrow> nat \<Rightarrow> (nat \<times> u16) list" where
  "halfwords [] a = []"
| "halfwords ((i, v) # rest) a =
     (a, ucast i) # (a + 2, v) # (a + 4, ucast i XOR v) # halfwords rest (a + 6)"

definition rewrite_plan :: "vars \<Rightarrow> (nat \<times> u16) list" where
  "rewrite_plan vs =
     (EEPROM_ADDRESS, EEPROM_MARKER) # (EEPROM_ADDRESS + 2, 0) # halfwords vs (EEPROM_ADDRESS + 4)"

text \<open>
  \<open>issue ws s\<close> is the state after calling \<open>EEPROM_writeHalfWord\<close> for each half-word of
  \<open>ws\<close> in turn, whatever the calls return; \<open>accepted ws s\<close> says that each of these calls
  returns \<open>EEPROM_OK\<close>.
\<close>

fun issue :: "(nat \<times> u16) list \<Rightarrow> flash \<Rightarrow> flash" where
  "issue [] s = s"
| "issue ((a, d) # ws) s = issue ws (snd (EEPROM_writeHalfWord a d s))"

fun accepted :: "(nat \<times> u16) list \<Rightarrow> flash \<Rightarrow> bool" where
  "accepted [] s = True"
| "accepted ((a, d) # ws) s =
     (fst (EEPROM_writeHalfWord a d s) = EEPROM_OK \<and> accepted ws (snd (EEPROM_writeHalfWord a d s)))"

text \<open>Programming a list of half-words in order, up to the first status other than \<open>EEPROM_OK\<close>.\<close>

fun write_seq :: "(nat \<times> u16) list \<Rightarrow> flash \<Rightarrow> u8 \<times> flash" where
  "write_seq [] s = (EEPROM_OK, s)"
| "write_seq ((a, d) # ws) s =
     (case EEPROM_writeHalfWord a d s of (status, s1) \<Rightarrow>
        if status \<noteq> EEPROM_OK then (status, s1) else write_seq ws s1)"

subsection \<open>Example pages and controllers\<close>

text \<open>Ten variables with the ids 20 to 29: a full page.\<close>

definition ten_vars :: vars where
  "ten_vars = [(20, 0), (21, 1), (22, 2), (23, 3), (24, 4), (25, 5), (26, 6), (27, 7), (28, 8), (29, 9)]"

text \<open>
  The page of the variables 1, 2 and 3 after the value of the second entry was changed
  from 9 to 8 with its Check left as it was.
\<close>

definition dented :: "nat \<Rightarrow> u16" where
  "dented = (page_image [(1, 7), (2, 9), (3, 5)])(slot_addr 1 + 2 := 8)"

text \<open>
  A page whose only entry, for the id 5, has a non-zero high byte in its Id half-word
  (\<open>0x0105\<close>) and the Check to match.
\<close>

definition wide_id_page :: "nat \<Rightarrow> u16" where
  "wide_id_page = (page_image [(5, 3)])(slot_addr 0 := 0x0105, slot_addr 0 + 4 := 0x0106)"

text \<open>
  A controller holding the variable 1 whose fourth operation from now (the first entry
  half-word of the next rewrite) has no effect on the array.
\<close>

definition glitchy :: flash where
  "glitchy = \<lparr>mem = page_image [(1, 7)], busy = 0, lock = True, pg = False, per = False,
               env = [Completes 0, Completes 0, Completes 0, Fizzles 0]\<rparr>"

section \<open>Auxiliary facts\<close>

subsection \<open>Waiting, programming, erasing\<close>

lemma wait_loop_eq:
  "wait_loop t s = (t - min t (busy s), s\<lparr>busy := busy s - min t (busy s)\<rparr>)"
proof (induction t s rule: wait_loop.induct)
  case (1 timeout s)
  show ?case
  proof (cases "0 < busy s \<and> 0 < timeout")
    case True
    have m: "min timeout (busy s) = Suc (min (timeout - 1) (busy s - 1))"
      using True by (simp add: min_def) arith
    have "wait_loop timeout s = wait_loop (timeout - 1) (s\<lparr>busy := busy s - 1\<rparr>)"
      using True by (subst wait_loop.simps) simp
    also have "\<dots> = (timeout - 1 - min (timeout - 1) (busy s - 1),
        s\<lparr>busy := busy s - 1 - min (timeout - 1) (busy s - 1)\<rparr>)"
      using "1.IH" [OF True] by simp
    finally show ?thesis
      unfolding m by simp
  next
    case False
    then show ?thesis
      by (subst wait_loop.simps) auto
  qed
qed

lemma wait_eq:
  "EEPROM_waitForLastOperation s =
     (if busy s < 50000 then (EEPROM_OK, s\<lparr>busy := 0\<rparr>)
      else (EEPROM_ERROR, s\<lparr>busy := busy s - 50000\<rparr>))"
  by (simp add: EEPROM_waitForLastOperation_def wait_loop_eq min_def)

lemma wait_mem [simp]: "mem (snd (EEPROM_waitForLastOperation s)) = mem s"
  by (simp add: wait_eq)

lemma load16_simp [simp]: "load16 a s = (mem s a, s)"
  by (simp add: load16_def)

lemma OK_neq_ERROR [simp]: "EEPROM_OK \<noteq> EEPROM_ERROR" "EEPROM_ERROR \<noteq> EEPROM_OK"
  by (simp_all add: EEPROM_OK_def EEPROM_ERROR_def)

lemma writeHalfWord_status:
  "fst (EEPROM_writeHalfWord a d s) = EEPROM_OK \<or> fst (EEPROM_writeHalfWord a d s) = EEPROM_ERROR"
  by (simp add: EEPROM_writeHalfWord_def wait_eq split: prod.splits if_splits)

text \<open>
  The readback check: a half-word write that returns \<open>EEPROM_OK\<close> has left the value in
  its cell, whatever the hardware did, and no write touches another cell.
\<close>

lemma writeHalfWord_OK_mem:
  "EEPROM_writeHalfWord a d s = (EEPROM_OK, s') \<Longrightarrow> mem s' = (mem s)(a := d)"
  by (auto simp: EEPROM_writeHalfWord_def wait_eq EEPROM_lockFlash_def EEPROM_unlockFlash_def
      store16_def fun_eq_iff split: if_splits)

lemma writeHalfWord_frame:
  "x \<noteq> a \<Longrightarrow> mem (snd (EEPROM_writeHalfWord a d s)) x = mem s x"
  by (auto simp: EEPROM_writeHalfWord_def wait_eq EEPROM_lockFlash_def EEPROM_unlockFlash_def
      store16_def fun_eq_iff split: if_splits)

lemma format_status:
  "fst (EEPROM_format s) = EEPROM_OK \<or> fst (EEPROM_format s) = EEPROM_ERROR"
  by (simp add: EEPROM_format_def wait_eq split: prod.splits if_splits)

lemma format_OK_first:
  "EEPROM_format s = (EEPROM_OK, s') \<Longrightarrow> mem s' EEPROM_ADDRESS = 0xFFFF"
  by (auto simp: EEPROM_format_def wait_eq EEPROM_lockFlash_def EEPROM_unlockFlash_def
      start_erase_def split: if_splits)

text \<open>
  The page is initialised whenever a rewrite starts, so its first half-word is not
  \<open>0xFFFF\<close>; an erase without effect would leave it so and fail the check of
  \<open>EEPROM_format\<close>. A format that returns \<open>EEPROM_OK\<close> on such a page has erased it.
\<close>

lemma format_OK_erased:
  "EEPROM_format s = (EEPROM_OK, s') \<Longrightarrow> mem s EEPROM_ADDRESS \<noteq> 0xFFFF \<Longrightarrow> mem s' = (\<lambda>a. 0xFFFF)"
  by (auto simp: EEPROM_format_def wait_eq EEPROM_lockFlash_def EEPROM_unlockFlash_def
      start_erase_def split: if_splits)

subsection \<open>The scans, in terms of the layout\<close>

lemma slot_addr_Suc: "slot_addr (Suc k) = slot_addr k + 6"
  by (simp add: slot_addr_def)

lemma slot_addr_0: "slot_addr 0 = EEPROM_ADDRESS + 4"
  by (simp add: slot_addr_def)

lemma used_slots_step:
  "i < 10 \<Longrightarrow> used_slots m i =
     (if m (slot_addr i) = 0xFFFF then [] else i # used_slots m (Suc i))"
  by (simp add: used_slots_def upt_conv_Cons)

lemma used_slots_end: "\<not> i < 10 \<Longrightarrow> used_slots m i = []"
  by (simp add: used_slots_def)

lemma findVar_loop_eq:
  "findVar_loop i (slot_addr i) vid s =
     (map_option slot_addr
        (List.find (\<lambda>k. mem s (slot_addr k) AND 0xFF = ucast vid \<and>
                        mem s (slot_addr k + 4) = mem s (slot_addr k) XOR mem s (slot_addr k + 2))
           (used_slots (mem s) i)), s)"
proof (induction "10 - i" arbitrary: i)
  case 0
  then show ?case
    by (subst findVar_loop.simps) (simp add: used_slots_end)
next
  case (Suc n)
  then have i: "i < 10" and n: "n = 10 - Suc i"
    by simp_all
  show ?case
    using Suc.hyps(1) [OF n] i
    by (subst findVar_loop.simps)
       (simp add: used_slots_step slot_addr_Suc EEPROM_calcCRC_def)
qed

lemma isInitialized_eq:
  "EEPROM_isInitialized s = (if mem s EEPROM_ADDRESS = EEPROM_MARKER then 1 else 0, s)"
  by (simp add: EEPROM_isInitialized_def)

lemma findVar_eq: "EEPROM_findVar vid s = (lookup_spec vid (mem s), s)"
  using findVar_loop_eq [of 0 vid s]
  by (simp add: EEPROM_findVar_def isInitialized_eq lookup_spec_def matches_def [abs_def]
      slot_addr_0)

subsection \<open>Identifiers between 8 and 16 bits\<close>

lemma mask8: "(0xFF :: u16) = mask 8"
  by (simp add: mask_eq_exp_minus_1)

lemma low8_eq_iff: "((x :: u16) AND 0xFF = ucast (vid :: u8)) \<longleftrightarrow> (ucast x :: u8) = vid"
  unfolding mask8
  apply (rule iffI)
   apply (rule bit_word_eqI)
   apply (drule_tac f="\<lambda>w. bit w n" in arg_cong)
   apply (simp add: bit_simps)
  apply (rule bit_word_eqI)
  apply (auto simp add: bit_simps)
  done

lemma ucast_low8: "(ucast ((x :: u16) AND 0xFF) :: u8) = ucast x"
  unfolding mask8 by (rule bit_word_eqI) (simp add: bit_simps)

lemma ucast_ucast8: "(ucast (ucast (i :: u8) :: u16) :: u8) = i"
  by (rule bit_word_eqI) (simp add: bit_simps)

lemma ucast8_lt: "(ucast (i :: u8) :: u16) < 0x100"
proof -
  have "ucast i = (ucast i :: u16) AND mask 8"
    by (rule bit_word_eqI) (auto simp add: bit_simps dest: bit_imp_le_length)
  also have "\<dots> < 2 ^ 8"
    by (rule and_mask_less') simp
  finally show ?thesis
    by simp
qed

lemma ucast8_not_erased: "(ucast (i :: u8) :: u16) \<noteq> 0xFFFF"
  using ucast8_lt [of i] by auto

subsection \<open>The working set\<close>

lemma put_var_ok: "length vs < 10 \<Longrightarrow> put_var vs i v = Inr (vs @ [(i, v)])"
  by (simp add: put_var_def)

lemma put_var_full: "\<not> length vs < 10 \<Longrightarrow> put_var vs i v = Inl OutOfBounds"
  by (simp add: put_var_def)

lemma saveVar_scan_eq:
  "length vs \<le> i \<Longrightarrow>
   saveVar_scan i (slot_addr i) vid vs s =
     Inr (vs @ map var_of (filter (\<lambda>e. low_id e \<noteq> vid \<and> live e)
                             (map (entry_at (mem s)) (used_slots (mem s) i))), s)"
proof (induction "10 - i" arbitrary: i vs)
  case 0
  then show ?case
    by (subst saveVar_scan.simps) (simp add: used_slots_end)
next
  case (Suc n)
  then have i: "i < 10" and n: "n = 10 - Suc i"
    by simp_all
  have len: "length vs < 10"
    using Suc.prems i by simp
  have ih0: "saveVar_scan (Suc i) (slot_addr (Suc i)) vid vs s =
     Inr (vs @ map var_of (filter (\<lambda>e. low_id e \<noteq> vid \<and> live e)
                             (map (entry_at (mem s)) (used_slots (mem s) (Suc i)))), s)"
    using Suc.hyps(1) [OF n, of vs] Suc.prems by simp
  have ih1: "saveVar_scan (Suc i) (slot_addr (Suc i)) vid (vs @ [x]) s =
     Inr ((vs @ [x]) @ map var_of (filter (\<lambda>e. low_id e \<noteq> vid \<and> live e)
                             (map (entry_at (mem s)) (used_slots (mem s) (Suc i)))), s)" for x
    using Suc.hyps(1) [OF n, of "vs @ [x]"] Suc.prems by simp
  show ?case
    using i ih0 ih1
    by (subst saveVar_scan.simps)
       (simp add: used_slots_step slot_addr_Suc EEPROM_calcCRC_def put_var_ok [OF len]
          entry_at_def low8_eq_iff ucast_low8)
qed

lemma id_listed_eq:
  "count \<le> length ids \<Longrightarrow> j \<le> count \<Longrightarrow>
   id_listed ids count j b = Inr (b \<in> set (drop j (take count ids)))"
proof (induction "count - j" arbitrary: j)
  case 0
  then show ?case
    by (subst id_listed.simps) simp
next
  case (Suc n)
  then have j: "j < count" and n: "n = count - Suc j"
    by simp_all
  have d: "drop j (take count ids) = ids ! j # drop (Suc j) (take count ids)"
    using j Suc.prems by (simp add: Cons_nth_drop_Suc [symmetric])
  show ?case
    using Suc.hyps(1) [OF n] Suc.prems j
    by (subst id_listed.simps) (auto simp: d)
qed

lemma saveVars_scan_eq:
  "count \<le> length ids \<Longrightarrow> length vs \<le> i \<Longrightarrow>
   saveVars_scan ids count i (slot_addr i) vs s =
     Inr (vs @ map var_of (filter (\<lambda>e. live e \<and> low_id e \<notin> set (take count ids))
                             (map (entry_at (mem s)) (used_slots (mem s) i))), s)"
proof (induction "10 - i" arbitrary: i vs)
  case 0
  then show ?case
    by (subst saveVars_scan.simps) (simp add: used_slots_end)
next
  case (Suc n)
  then have i: "i < 10" and n: "n = 10 - Suc i"
    by simp_all
  have len: "length vs < 10"
    using Suc.prems i by simp
  have ih0: "saveVars_scan ids count (Suc i) (slot_addr (Suc i)) vs s =
     Inr (vs @ map var_of (filter (\<lambda>e. live e \<and> low_id e \<notin> set (take count ids))
                             (map (entry_at (mem s)) (used_slots (mem s) (Suc i)))), s)"
    using Suc.hyps(1) [OF n, of vs] Suc.prems by simp
  have ih1: "saveVars_scan ids count (Suc i) (slot_addr (Suc i)) (vs @ [x]) s =
     Inr ((vs @ [x]) @ map var_of (filter (\<lambda>e. live e \<and> low_id e \<notin> set (take count ids))
                             (map (entry_at (mem s)) (used_slots (mem s) (Suc i)))), s)" for x
    using Suc.hyps(1) [OF n, of "vs @ [x]"] Suc.prems by simp
  show ?case
    using i ih0 ih1 Suc.prems(1)
    by (subst saveVars_scan.simps)
       (simp add: used_slots_step slot_addr_Suc EEPROM_calcCRC_def put_var_ok [OF len]
          entry_at_def ucast_low8 id_listed_eq)
qed

lemma saveVars_append_eq:
  "count \<le> length ids \<Longrightarrow> count \<le> length vals \<Longrightarrow> j \<le> count \<Longrightarrow>
   saveVars_append ids vals count j vs =
     Inr (vs @ take (10 - length vs) (drop j (take count (zip ids vals))))"
proof (induction "count - j" arbitrary: j vs)
  case 0
  then show ?case
    by (subst saveVars_append.simps) simp
next
  case (Suc n)
  then have j: "j < count" and n: "n = count - Suc j"
    by simp_all
  have d: "drop j (take count (zip ids vals)) =
      (ids ! j, vals ! j) # drop (Suc j) (take count (zip ids vals))"
    using j Suc.prems by (simp add: Cons_nth_drop_Suc [symmetric])
  show ?case
  proof (cases "10 \<le> length vs")
    case True
    then show ?thesis
      using j by (subst saveVars_append.simps) simp
  next
    case False
    then have len: "length vs < 10"
      by simp
    have t: "take (10 - length vs) (x # xs) = x # take (10 - Suc (length vs)) xs" for x :: "u8 \<times> u16" and xs
    proof -
      have "10 - length vs = Suc (10 - Suc (length vs))"
        using len by simp
      then show ?thesis
        by (simp only: take_Suc_Cons)
    qed
    show ?thesis
      using Suc.hyps(1) [OF n, of "vs @ [(ids ! j, vals ! j)]"] Suc.prems j len
      by (subst saveVars_append.simps) (simp add: put_var_ok d t)
  qed
qed

subsection \<open>The rewrite phase\<close>

lemma write_vars_OK_mem:
  "write_vars vs a s = (EEPROM_OK, s') \<Longrightarrow> mem s' = lay vs a (mem s)"
proof (induction vs a s rule: write_vars.induct)
  case (1 a s)
  then show ?case by simp
next
  case (2 i v rest a s)
  obtain st1 s1 where w1: "EEPROM_writeHalfWord a (ucast i) s = (st1, s1)"
    by (cases "EEPROM_writeHalfWord a (ucast i) s")
  obtain st2 s2 where w2: "EEPROM_writeHalfWord (a + 2) v s1 = (st2, s2)"
    by (cases "EEPROM_writeHalfWord (a + 2) v s1")
  obtain st3 s3 where
    w3: "EEPROM_writeHalfWord (a + 4) (EEPROM_calcCRC (ucast i) v) s2 = (st3, s3)"
    by (cases "EEPROM_writeHalfWord (a + 4) (EEPROM_calcCRC (ucast i) v) s2")
  from "2.prems" w1 w2 w3 have ok: "st1 = EEPROM_OK" "st2 = EEPROM_OK" "st3 = EEPROM_OK"
    and rest: "write_vars rest (a + 6) s3 = (EEPROM_OK, s')"
    by (auto split: if_splits)
  have "mem s' = lay rest (a + 6) (mem s3)"
    using "2.IH" w1 w2 w3 ok rest by auto
  moreover have "mem s3 = (mem s)(a := ucast i, a + 2 := v, a + 4 := ucast i XOR v)"
    using w1 w2 w3 ok by (simp add: writeHalfWord_OK_mem EEPROM_calcCRC_def)
  ultimately show ?case
    by simp
qed

lemma format_and_header_OK:
  assumes "format_and_header s = (EEPROM_OK, s')"
  shows "mem s' EEPROM_ADDRESS = EEPROM_MARKER"
    and "mem s EEPROM_ADDRESS \<noteq> 0xFFFF \<Longrightarrow>
         mem s' = erased(EEPROM_ADDRESS := EEPROM_MARKER, EEPROM_ADDRESS + 2 := 0)"
proof -
  obtain st1 s1 where f: "EEPROM_format s = (st1, s1)"
    by (cases "EEPROM_format s")
  obtain st2 s2 where w1: "EEPROM_writeHalfWord EEPROM_ADDRESS EEPROM_MARKER s1 = (st2, s2)"
    by (cases "EEPROM_writeHalfWord EEPROM_ADDRESS EEPROM_MARKER s1")
  from assms f w1 have ok: "st1 = EEPROM_OK" "st2 = EEPROM_OK"
    and w2: "EEPROM_writeHalfWord (EEPROM_ADDRESS + 2) 0 s2 = (EEPROM_OK, s')"
    by (auto simp: format_and_header_def split: if_splits)
  have m: "mem s' = (mem s1)(EEPROM_ADDRESS := EEPROM_MARKER, EEPROM_ADDRESS + 2 := 0)"
    using w1 w2 ok by (simp add: writeHalfWord_OK_mem)
  show "mem s' EEPROM_ADDRESS = EEPROM_MARKER"
    by (simp add: m)
  show "mem s' = erased(EEPROM_ADDRESS := EEPROM_MARKER, EEPROM_ADDRESS + 2 := 0)"
    if "mem s EEPROM_ADDRESS \<noteq> 0xFFFF"
    using format_OK_erased [of s s1] f ok that by (simp add: m erased_def)
qed

lemma marker_not_erased [simp]: "EEPROM_MARKER \<noteq> 0xFFFF"
  by (simp add: EEPROM_MARKER_def)

lemma rewrite_page_OK:
  assumes "rewrite_page vs s = (EEPROM_OK, s')" and "mem s EEPROM_ADDRESS \<noteq> 0xFFFF"
  shows "mem s' = page_image vs"
proof -
  obtain st1 s1 where h: "format_and_header s = (st1, s1)"
    by (cases "format_and_header s")
  from assms(1) h have ok: "st1 = EEPROM_OK"
    and w: "write_vars vs (EEPROM_ADDRESS + 4) s1 = (EEPROM_OK, s')"
    by (auto simp: rewrite_page_def split: if_splits)
  show ?thesis
    using write_vars_OK_mem [OF w] format_and_header_OK(2) [of s s1] h ok assms(2)
    by (simp add: page_image_def)
qed

text \<open>The same steps on ideal hardware.\<close>

lemma erased_and [simp]: "(0xFFFF :: u16) AND d = d"
proof -
  have "(0xFFFF :: u16) = - 1"
    by simp
  then show ?thesis
    by (simp only: and.left_neutral)
qed

lemma format_idle: "EEPROM_format (idle_flash m) = (EEPROM_OK, idle_flash erased)"
  by (simp add: EEPROM_format_def idle_flash_def wait_eq EEPROM_unlockFlash_def
      EEPROM_lockFlash_def start_erase_def next_event_def erased_def)

lemma writeHalfWord_idle:
  "m a = 0xFFFF \<Longrightarrow>
   EEPROM_writeHalfWord a d (idle_flash m) = (EEPROM_OK, idle_flash (m(a := d)))"
  by (simp add: EEPROM_writeHalfWord_def idle_flash_def wait_eq EEPROM_unlockFlash_def
      EEPROM_lockFlash_def store16_def next_event_def)

lemma write_vars_idle:
  "(\<And>x. a \<le> x \<Longrightarrow> m x = 0xFFFF) \<Longrightarrow>
   write_vars vs a (idle_flash m) = (EEPROM_OK, idle_flash (lay vs a m))"
proof (induction vs arbitrary: a m)
  case Nil
  then show ?case by simp
next
  case (Cons p vs)
  obtain i v where p: "p = (i, v)"
    by (cases p)
  let ?m3 = "m(a := ucast i, a + 2 := v, a + 4 := ucast i XOR v)"
  have "write_vars vs (a + 6) (idle_flash ?m3) = (EEPROM_OK, idle_flash (lay vs (a + 6) ?m3))"
    by (rule Cons.IH) (simp add: Cons.prems)
  then show ?case
    by (simp add: p writeHalfWord_idle Cons.prems EEPROM_calcCRC_def)
qed

lemma format_and_header_idle:
  "format_and_header (idle_flash m) =
     (EEPROM_OK, idle_flash (erased(EEPROM_ADDRESS := EEPROM_MARKER, EEPROM_ADDRESS + 2 := 0)))"
  by (simp add: format_and_header_def format_idle writeHalfWord_idle erased_def)

lemma rewrite_page_idle:
  "rewrite_page vs (idle_flash m) = (EEPROM_OK, idle_flash (page_image vs))"
  by (simp add: rewrite_page_def format_and_header_idle page_image_def write_vars_idle erased_def)

subsection \<open>Reading a rewritten page back\<close>

lemma lay_below: "x < a \<Longrightarrow> lay vs a m x = m x"
  by (induction vs a m rule: lay.induct) auto

lemma lay_beyond: "a + 6 * length vs \<le> x \<Longrightarrow> lay vs a m x = m x"
  by (induction vs a m rule: lay.induct) auto

lemma lay_entry:
  "k < length vs \<Longrightarrow>
   lay vs a m (a + 6 * k) = ucast (fst (vs ! k)) \<and>
   lay vs a m (a + 6 * k + 2) = snd (vs ! k) \<and>
   lay vs a m (a + 6 * k + 4) = ucast (fst (vs ! k)) XOR snd (vs ! k)"
proof (induction vs a m arbitrary: k rule: lay.induct)
  case (1 a m)
  then show ?case by simp
next
  case (2 i v rest a m)
  show ?case
  proof (cases k)
    case 0
    then show ?thesis
      by (simp add: lay_below)
  next
    case (Suc j)
    then have "j < length rest"
      using "2.prems" by simp
    from "2.IH" [OF this]
    have "lay rest (a + 6) (m(a := ucast i, a + 2 := v, a + 4 := ucast i XOR v)) (a + 6 + 6 * j) =
            ucast (fst (rest ! j)) \<and>
          lay rest (a + 6) (m(a := ucast i, a + 2 := v, a + 4 := ucast i XOR v)) (a + 6 + 6 * j + 2) =
            snd (rest ! j) \<and>
          lay rest (a + 6) (m(a := ucast i, a + 2 := v, a + 4 := ucast i XOR v)) (a + 6 + 6 * j + 4) =
            ucast (fst (rest ! j)) XOR snd (rest ! j)" .
    moreover have "a + 6 * k = a + 6 + 6 * j"
      by (simp add: Suc)
    ultimately show ?thesis
      by (simp only: lay.simps Suc nth_Cons_Suc)
  qed
qed

lemma page_image_marker [simp]: "page_image vs EEPROM_ADDRESS = EEPROM_MARKER"
  by (simp add: page_image_def lay_below)

lemma page_image_entry:
  "k < length vs \<Longrightarrow> entry_at (page_image vs) k = entry_of (vs ! k)"
  using lay_entry [of k vs "EEPROM_ADDRESS + 4"]
  by (cases "vs ! k") (simp add: entry_at_def slot_addr_def page_image_def)

lemma page_image_free:
  "length vs \<le> k \<Longrightarrow> page_image vs (slot_addr k) = 0xFFFF"
  by (simp add: page_image_def slot_addr_def lay_beyond erased_def)

lemma takeWhile_upt:
  assumes "n \<le> N" and "\<And>k. k < n \<Longrightarrow> P k" and "n < N \<Longrightarrow> \<not> P n"
  shows "takeWhile P [0..<N] = [0..<n]"
proof -
  have "[0..<N] = [0..<n] @ [n..<N]"
    using assms(1) by (metis le_add_diff_inverse upt_add_eq_append zero_le)
  moreover have "takeWhile P [n..<N] = []"
    using assms(3) by (cases "n < N") (simp_all add: upt_conv_Cons)
  moreover have "\<forall>k \<in> set [0..<n]. P k"
    using assms(2) by simp
  ultimately show ?thesis
    by (simp only: takeWhile_append2 append_Nil2)
qed

lemma used_slots_page_image:
  assumes "length vs \<le> 10"
  shows "used_slots (page_image vs) 0 = [0..<length vs]"
  unfolding used_slots_def
proof (rule takeWhile_upt)
  show "length vs \<le> 10" by fact
  show "page_image vs (slot_addr k) \<noteq> 0xFFFF" if "k < length vs" for k
    using page_image_entry [OF that] by (cases "vs ! k") (simp add: entry_at_def ucast8_not_erased)
  show "\<not> page_image vs (slot_addr (length vs)) \<noteq> 0xFFFF"
    by (simp add: page_image_free)
qed

lemma stored_page_image:
  assumes "length vs \<le> 10"
  shows "stored (page_image vs) = map entry_of vs"
proof -
  have "map (entry_at (page_image vs)) [0..<length vs] = map (\<lambda>k. entry_of (vs ! k)) [0..<length vs]"
    by (simp add: page_image_entry)
  also have "\<dots> = map entry_of (map ((!) vs) [0..<length vs])"
    by simp
  also have "\<dots> = map entry_of vs"
    by (simp only: map_nth)
  finally show ?thesis
    by (simp add: stored_def used_slots_page_image [OF assms])
qed

lemma live_entry_of [simp]: "live (entry_of p)"
  by (cases p) simp

lemma var_of_entry_of [simp]: "var_of (entry_of p) = p"
  by (cases p) (simp add: ucast_ucast8)

lemma live_vars_page_image:
  "length vs \<le> 10 \<Longrightarrow> live_vars (page_image vs) = vs"
  by (simp add: live_vars_def stored_page_image o_def)

subsection \<open>The save operations as a whole\<close>

lemma fst_var_of [simp]: "fst (var_of e) = low_id e"
  by (cases e) simp

lemma survivors_eq:
  "map var_of (filter (\<lambda>e. Q (low_id e) \<and> live e) es) =
   filter (\<lambda>p. Q (fst p)) (map var_of (filter live es))"
  by (induction es) auto

lemma survivors_eq':
  "map var_of (filter (\<lambda>e. live e \<and> Q (low_id e)) es) =
   filter (\<lambda>p. Q (fst p)) (map var_of (filter live es))"
  by (induction es) auto

lemma length_used_slots: "length (used_slots m i) \<le> 10 - i"
  using length_takeWhile_le [of "\<lambda>k. m (slot_addr k) \<noteq> 0xFFFF" "[i..<10]"]
  by (simp add: used_slots_def)

lemma length_live_vars: "length (live_vars m) \<le> 10"
proof -
  have "length (filter live (stored m)) \<le> length (stored m)"
    by (rule length_filter_le)
  also have "\<dots> \<le> 10"
    using length_used_slots [of m 0] by (simp add: stored_def)
  finally show ?thesis
    by (simp add: live_vars_def)
qed

lemma saveVar_scan_live:
  "mem s EEPROM_ADDRESS = EEPROM_MARKER \<Longrightarrow>
   saveVar_scan 0 (EEPROM_ADDRESS + 4) vid [] s =
     Inr (filter (\<lambda>p. fst p \<noteq> vid) (live_vars (mem s)), s)"
  using saveVar_scan_eq [of "[]" 0 vid s]
  by (simp add: slot_addr_0 live_vars_def stored_def survivors_eq [of "\<lambda>i. i \<noteq> vid"])

lemma saveVars_scan_live:
  "mem s EEPROM_ADDRESS = EEPROM_MARKER \<Longrightarrow> count \<le> length ids \<Longrightarrow>
   saveVars_scan ids count 0 (EEPROM_ADDRESS + 4) [] s =
     Inr (filter (\<lambda>p. fst p \<notin> set (take count ids)) (live_vars (mem s)), s)"
  using saveVars_scan_eq [of count ids "[]" 0 s]
  by (simp add: slot_addr_0 live_vars_def stored_def
      survivors_eq' [of "\<lambda>i. i \<notin> set (take count ids)"])

text \<open>
  The page after a save that returned \<open>EEPROM_OK\<close>, on any hardware: the image of the
  working set.
\<close>

lemma saveVar_OK:
  assumes "EEPROM_saveVar vid val s = Inr (EEPROM_OK, s')"
  shows "mem s' = page_image (filter (\<lambda>p. fst p \<noteq> vid) (live_vars (mem s)) @ [(vid, val)])"
    and "length (filter (\<lambda>p. fst p \<noteq> vid) (live_vars (mem s))) < 10"
proof -
  let ?vs = "filter (\<lambda>p. fst p \<noteq> vid) (live_vars (mem s))"
  have "mem s' = page_image (?vs @ [(vid, val)]) \<and> length ?vs < 10"
  proof (cases "mem s EEPROM_ADDRESS = EEPROM_MARKER")
    case True
    from assms True have len: "length ?vs < 10"
      and r: "rewrite_page (?vs @ [(vid, val)]) s = (EEPROM_OK, s')"
      by (auto simp: EEPROM_saveVar_def isInitialized_eq saveVar_scan_live put_var_def
          split: if_splits)
    from rewrite_page_OK [OF r] True len show ?thesis
      by simp
  next
    case False
    obtain st1 s1 where h: "format_and_header s = (st1, s1)"
      by (cases "format_and_header s")
    from assms False h have ok: "st1 = EEPROM_OK"
      and r: "rewrite_page [(vid, val)] s1 = (EEPROM_OK, s')"
      by (auto simp: EEPROM_saveVar_def isInitialized_eq put_var_def split: if_splits)
    have "mem s1 EEPROM_ADDRESS = EEPROM_MARKER"
      using format_and_header_OK(1) [of s s1] h ok by simp
    with rewrite_page_OK [OF r] False show ?thesis
      by (simp add: live_vars_def)
  qed
  then show "mem s' = page_image (?vs @ [(vid, val)])" and "length ?vs < 10"
    by simp_all
qed

lemma saveVars_OK:
  assumes "unat count \<le> length ids" and "unat count \<le> length vals"
    and "EEPROM_saveVars ids vals count s = Inr (EEPROM_OK, s')"
  shows "mem s' = page_image (take 10
           (filter (\<lambda>p. fst p \<notin> set (take (unat count) ids)) (live_vars (mem s)) @
            take (unat count) (zip ids vals)))"
proof -
  let ?vs = "filter (\<lambda>p. fst p \<notin> set (take (unat count) ids)) (live_vars (mem s))"
  let ?new = "take (unat count) (zip ids vals)"
  have len: "length ?vs \<le> 10"
    using length_filter_le [of _ "live_vars (mem s)"] length_live_vars [of "mem s"]
    by (rule order_trans)
  have t: "?vs @ take (10 - length ?vs) ?new = take 10 (?vs @ ?new)"
    using len by simp
  show ?thesis
  proof (cases "mem s EEPROM_ADDRESS = EEPROM_MARKER")
    case True
    from assms True have r: "rewrite_page (?vs @ take (10 - length ?vs) ?new) s = (EEPROM_OK, s')"
      by (auto simp: EEPROM_saveVars_def isInitialized_eq saveVars_scan_live saveVars_append_eq
          split: if_splits)
    from rewrite_page_OK [OF r] True show ?thesis
      by (simp only: t) simp
  next
    case False
    obtain st1 s1 where h: "format_and_header s = (st1, s1)"
      by (cases "format_and_header s")
    from assms False h have ok: "st1 = EEPROM_OK"
      and r: "rewrite_page (take 10 ?new) s1 = (EEPROM_OK, s')"
      by (auto simp: EEPROM_saveVars_def isInitialized_eq saveVars_append_eq split: if_splits)
    have "mem s1 EEPROM_ADDRESS = EEPROM_MARKER"
      using format_and_header_OK(1) [of s s1] h ok by simp
    with rewrite_page_OK [OF r] False show ?thesis
      by (simp add: live_vars_def)
  qed
qed

lemma mem_idle [simp]: "mem (idle_flash m) = m"
  by (simp add: idle_flash_def)

text \<open>On ideal hardware a save returns \<open>EEPROM_OK\<close> unless its working set overflows.\<close>

lemma saveVar_idle:
  "EEPROM_saveVar vid val (idle_flash m) =
     (if length (filter (\<lambda>p. fst p \<noteq> vid) (live_vars m)) < 10
      then Inr (EEPROM_OK,
                idle_flash (page_image (filter (\<lambda>p. fst p \<noteq> vid) (live_vars m) @ [(vid, val)])))
      else Inl OutOfBounds)"
proof (cases "m EEPROM_ADDRESS = EEPROM_MARKER")
  case True
  with saveVar_scan_live [of "idle_flash m" vid] show ?thesis
    by (simp add: EEPROM_saveVar_def isInitialized_eq put_var_def rewrite_page_idle)
next
  case False
  then show ?thesis
    by (simp add: EEPROM_saveVar_def isInitialized_eq put_var_def rewrite_page_idle
        format_and_header_idle live_vars_def)
qed

lemma saveVars_idle:
  assumes "unat count \<le> length ids" and "unat count \<le> length vals"
  shows "EEPROM_saveVars ids vals count (idle_flash m) =
     Inr (EEPROM_OK, idle_flash (page_image (take 10
           (filter (\<lambda>p. fst p \<notin> set (take (unat count) ids)) (live_vars m) @
            take (unat count) (zip ids vals)))))"
proof -
  let ?vs = "filter (\<lambda>p. fst p \<notin> set (take (unat count) ids)) (live_vars m)"
  let ?new = "take (unat count) (zip ids vals)"
  have len: "length ?vs \<le> 10"
    using length_filter_le [of _ "live_vars m"] length_live_vars [of m]
    by (rule order_trans)
  have t: "?vs @ take (10 - length ?vs) ?new = take 10 (?vs @ ?new)"
    using len by simp
  show ?thesis
  proof (cases "m EEPROM_ADDRESS = EEPROM_MARKER")
    case True
    with saveVars_scan_live [of "idle_flash m" "unat count" ids] assms
    have "EEPROM_saveVars ids vals count (idle_flash m) =
        Inr (rewrite_page (?vs @ take (10 - length ?vs) ?new) (idle_flash m))"
      by (simp add: EEPROM_saveVars_def isInitialized_eq saveVars_append_eq)
    then show ?thesis
      by (simp only: t rewrite_page_idle)
  next
    case False
    with assms
    have "EEPROM_saveVars ids vals count (idle_flash m) =
        Inr (rewrite_page ([] @ take (10 - length ([] :: vars)) ?new)
          (idle_flash (erased(EEPROM_ADDRESS := EEPROM_MARKER, EEPROM_ADDRESS + 2 := 0))))"
      by (simp add: EEPROM_saveVars_def isInitialized_eq saveVars_append_eq
          format_and_header_idle)
    moreover have "?vs = []"
      using False by (simp add: live_vars_def)
    ultimately show ?thesis
      by (simp add: rewrite_page_idle)
  qed
qed

subsection \<open>Reading\<close>

lemma find_live:
  "map_option (\<lambda>k. m (slot_addr k + 2))
     (List.find (\<lambda>k. m (slot_addr k) AND 0xFF = ucast vid \<and>
                     m (slot_addr k + 4) = m (slot_addr k) XOR m (slot_addr k + 2)) ks) =
   map_of (map var_of (filter live (map (entry_at m) ks))) vid"
  by (induction ks) (auto simp: entry_at_def low8_eq_iff)

lemma lookup_spec_value:
  "map_option (\<lambda>a. m (a + 2)) (lookup_spec vid m) = map_of (live_vars m) vid"
  using find_live [of m vid "used_slots m 0"]
  by (simp add: lookup_spec_def matches_def [abs_def] live_vars_def stored_def
      option.map_comp o_def)

lemma readVar_eq:
  "EEPROM_readVar vid s =
     (case map_of (live_vars (mem s)) vid of None \<Rightarrow> 0xFFFF | Some v \<Rightarrow> v, s)"
  using lookup_spec_value [of "mem s" vid, symmetric]
  by (cases "lookup_spec vid (mem s)") (auto simp: EEPROM_readVar_def findVar_eq)

lemma varExists_eq:
  "EEPROM_varExists vid s = (if map_of (live_vars (mem s)) vid = None then 0 else 1, s)"
  using lookup_spec_value [of "mem s" vid, symmetric]
  by (cases "lookup_spec vid (mem s)") (auto simp: EEPROM_varExists_def findVar_eq)

lemma findVar_None_iff:
  "fst (EEPROM_findVar vid s) = None \<longleftrightarrow> map_of (live_vars (mem s)) vid = None"
  using lookup_spec_value [of "mem s" vid, symmetric]
  by (cases "lookup_spec vid (mem s)") (auto simp: findVar_eq)

lemma map_of_saved:
  "map_of (filter (\<lambda>p. fst p \<noteq> vid) xs @ [(vid, val)]) vid = Some val"
  by (induction xs) auto

lemma live_vars_erased [simp]: "live_vars erased = []"
  by (simp add: live_vars_def erased_def EEPROM_MARKER_def)

subsection \<open>Lookup returns the first matching visited slot\<close>

lemma takeWhile_upt_prefix:
  "takeWhile P [0..<N] = [0..<length (takeWhile P [0..<N])]"
proof -
  have le: "0 + length (takeWhile P [0..<N]) \<le> N"
    using length_takeWhile_le [of P "[0..<N]"] by simp
  have "takeWhile P [0..<N] = take (length (takeWhile P [0..<N])) [0..<N]"
    by (rule takeWhile_eq_take)
  also have "\<dots> = [0..<0 + length (takeWhile P [0..<N])]"
    using le by (rule take_upt)
  finally show ?thesis
    by simp
qed

lemma used_slots_prefix: "used_slots m 0 = [0..<length (used_slots m 0)]"
  unfolding used_slots_def by (rule takeWhile_upt_prefix)

lemma visited_iff: "visited m k \<longleftrightarrow> k < length (used_slots m 0)"
proof
  let ?P = "\<lambda>k. m (slot_addr k) \<noteq> 0xFFFF"
  let ?n = "length (used_slots m 0)"
  have n10: "?n \<le> 10"
    using length_used_slots [of m 0] by simp
  {
    assume v: "visited m k"
    show "k < ?n"
    proof (rule ccontr)
      assume "\<not> k < ?n"
      then have nk: "?n \<le> k" by simp
      with v have "?n < length [0..<10]"
        by (simp add: visited_def)
      then have "\<not> ?P ([0..<10] ! ?n)"
        unfolding used_slots_def by (rule nth_length_takeWhile)
      moreover have "[0..<10] ! ?n = ?n"
        using nk v by (simp add: visited_def del: upt_Suc)
      moreover have "?P ?n"
        using v nk by (simp add: visited_def list_all_iff del: upt_Suc)
      ultimately show False by simp
    qed
  }
  {
    assume k: "k < ?n"
    have "?P j" if "j \<le> k" for j
    proof -
      from that k have "j \<in> set [0..<?n]" by simp
      then have "j \<in> set (used_slots m 0)"
        using used_slots_prefix [of m] by simp
      then show ?thesis
        unfolding used_slots_def by (rule set_takeWhileD [THEN conjunct2])
    qed
    then show "visited m k"
      using k n10 by (simp add: visited_def list_all_iff del: upt_Suc)
  }
qed

lemma lookup_spec_Some:
  assumes "lookup_spec vid m = Some a"
  shows "\<exists>k. a = slot_addr k \<and> visited m k \<and> matches vid m k \<and> (\<forall>j<k. \<not> matches vid m j)"
proof -
  let ?n = "length (used_slots m 0)"
  from assms obtain k where
    f: "List.find (matches vid m) [0..<?n] = Some k" and a: "a = slot_addr k"
    using used_slots_prefix [of m]
    by (auto simp: lookup_spec_def split: if_splits)
  from f obtain i where i: "i < ?n" "matches vid m ([0..<?n] ! i)" "k = [0..<?n] ! i"
    "\<forall>j<i. \<not> matches vid m ([0..<?n] ! j)"
    unfolding find_Some_iff by auto
  then have "k = i" by simp
  with i a show ?thesis
    by (auto simp: visited_iff)
qed

lemma lookup_spec_None:
  assumes "lookup_spec vid m = None" and "m EEPROM_ADDRESS = EEPROM_MARKER"
  shows "visited m k \<Longrightarrow> \<not> matches vid m k"
proof -
  let ?n = "length (used_slots m 0)"
  from assms have "List.find (matches vid m) [0..<?n] = None"
    using used_slots_prefix [of m]
    by (auto simp: lookup_spec_def split: if_splits)
  then have "\<not> matches vid m j" if "j < ?n" for j
    using that unfolding find_None_iff by simp
  then show "visited m k \<Longrightarrow> \<not> matches vid m k"
    by (simp add: visited_iff)
qed

lemma slot_addr_inj [simp]: "slot_addr j = slot_addr k \<longleftrightarrow> j = k"
  by (simp add: slot_addr_def)

subsection \<open>What a successful save leaves in the page\<close>

lemma saveVar_OK_stored:
  assumes "EEPROM_saveVar vid val s = Inr (EEPROM_OK, s')"
  shows "live_vars (mem s') = filter (\<lambda>p. fst p \<noteq> vid) (live_vars (mem s)) @ [(vid, val)]"
    and "stored (mem s') =
           map entry_of (filter (\<lambda>p. fst p \<noteq> vid) (live_vars (mem s)) @ [(vid, val)])"
proof -
  let ?vs = "filter (\<lambda>p. fst p \<noteq> vid) (live_vars (mem s)) @ [(vid, val)]"
  have len: "length ?vs \<le> 10"
    using saveVar_OK(2) [OF assms] by simp
  show "live_vars (mem s') = ?vs"
    using saveVar_OK(1) [OF assms] len by (simp only: live_vars_page_image)
  show "stored (mem s') = map entry_of ?vs"
    using saveVar_OK(1) [OF assms] len by (simp only: stored_page_image)
qed

lemma saveVars_OK_stored:
  assumes "unat count \<le> length ids" and "unat count \<le> length vals"
    and "EEPROM_saveVars ids vals count s = Inr (EEPROM_OK, s')"
  shows "live_vars (mem s') = take 10
           (filter (\<lambda>p. fst p \<notin> set (take (unat count) ids)) (live_vars (mem s)) @
            take (unat count) (zip ids vals))"
    and "stored (mem s') = map entry_of (take 10
           (filter (\<lambda>p. fst p \<notin> set (take (unat count) ids)) (live_vars (mem s)) @
            take (unat count) (zip ids vals)))"
proof -
  let ?vs = "take 10
           (filter (\<lambda>p. fst p \<notin> set (take (unat count) ids)) (live_vars (mem s)) @
            take (unat count) (zip ids vals))"
  have len: "length ?vs \<le> 10"
    by simp
  show "live_vars (mem s') = ?vs"
    using saveVars_OK [OF assms] len by (simp only: live_vars_page_image)
  show "stored (mem s') = map entry_of ?vs"
    using saveVars_OK [OF assms] len by (simp only: stored_page_image)
qed

lemma entry_of_id_small: "e \<in> set (map entry_of vs) \<Longrightarrow> fst e < 0x100 \<and> fst e \<noteq> 0xFFFF"
  by (auto simp: ucast8_lt ucast8_not_erased)

lemma page_image_slot:
  assumes "length vs \<le> 10"
  shows "page_image vs (slot_addr k) < 0x100 \<or> page_image vs (slot_addr k) = 0xFFFF"
proof (cases "k < length vs")
  case True
  from page_image_entry [OF True] have "page_image vs (slot_addr k) = ucast (fst (vs ! k))"
    by (cases "vs ! k") (simp add: entry_at_def)
  then show ?thesis
    by (simp add: ucast8_lt)
next
  case False
  then show ?thesis
    by (simp add: page_image_free)
qed

lemma map_of_None_live:
  "map_of (map var_of (filter live es)) vid = None \<longleftrightarrow> (\<forall>e \<in> set es. low_id e = vid \<longrightarrow> \<not> live e)"
  by (induction es) auto

lemma map_of_live_vars_None:
  "(\<forall>e \<in> set (stored m). low_id e = vid \<longrightarrow> \<not> live e) \<Longrightarrow> map_of (live_vars m) vid = None"
  by (simp add: live_vars_def map_of_None_live)

lemma matches_live: "matches vid m k \<Longrightarrow> live (entry_at m k) \<and> low_id (entry_at m k) = vid"
  by (simp add: matches_def entry_at_def low8_eq_iff)

lemma take_survivors:
  "length xs \<le> 10 \<Longrightarrow> take 10 (xs @ ys) = xs @ take (10 - length xs) ys"
  by simp

lemma length_survivors: "length (filter P (live_vars m)) \<le> 10"
  using length_filter_le [of P "live_vars m"] length_live_vars [of m] by (rule order_trans)

lemma upt_10: "[0..<10] = [0, 1, 2, 3, 4, 5, 6, 7, 8, 9]"
  by (simp add: upt_conv_Cons)

lemma stored_dented: "stored dented = [(1, 7, 6), (2, 8, 11), (3, 5, 6)]"
  by (simp add: stored_def used_slots_def upt_10 dented_def page_image_def slot_addr_def
      entry_at_def erased_def EEPROM_MARKER_def)

lemma live_vars_dented: "live_vars dented = [(1, 7), (3, 5)]"
  by (simp add: live_vars_def stored_dented)
     (simp add: dented_def page_image_def slot_addr_def)

lemma stored_wide_id_page: "stored wide_id_page = [(0x0105, 3, 0x0106)]"
  by (simp add: stored_def used_slots_def upt_10 wide_id_page_def page_image_def slot_addr_def
      entry_at_def erased_def EEPROM_MARKER_def)

lemma live_vars_wide_id_page: "live_vars wide_id_page = [(5, 3)]"
  by (simp add: live_vars_def stored_wide_id_page)
     (simp add: wide_id_page_def page_image_def slot_addr_def)

lemma distinct_survivors:
  "distinct (map fst xs) \<Longrightarrow> distinct (map fst (filter P xs))"
  by (induction xs) auto

lemma fst_set_survivors:
  "fst ` set (filter (\<lambda>p. Q (fst p)) xs) = {i \<in> fst ` set xs. Q i}"
  by (induction xs) auto

lemma distinct_take_zip:
  assumes "distinct (take c ids)"
  shows "distinct (map fst (take c (zip ids vals)))"
proof -
  let ?k = "min (length ids) (length vals)"
  have "map fst (take c (zip ids vals)) = take c (take ?k ids)"
    by (simp only: take_map [symmetric] map_fst_zip_take)
  also have "\<dots> = take ?k (take c ids)"
    by (simp add: min.commute)
  finally show ?thesis
    using assms by (simp only: distinct_take)
qed

lemma set_take_zip_fst: "fst ` set (take c (zip ids vals)) \<subseteq> set (take c ids)"
  by (auto simp: take_zip dest: set_zip_leftD)

lemma superseded_count:
  assumes "distinct ks" and "set ks \<subseteq> fst ` set xs"
  shows "length (filter (\<lambda>p. fst p \<notin> set ks) xs) + length ks \<le> length xs"
proof -
  let ?hit = "filter (\<lambda>p. fst p \<in> set ks) xs"
  have "set ks \<subseteq> fst ` set ?hit"
    using assms(2) by force
  then have "card (set ks) \<le> card (fst ` set ?hit)"
    by (simp add: card_mono)
  also have "\<dots> \<le> card (set ?hit)"
    by (simp add: card_image_le)
  also have "\<dots> \<le> length ?hit"
    by (rule card_length)
  finally have "length ks \<le> length ?hit"
    using assms(1) by (simp add: distinct_card)
  moreover have "length ?hit + length (filter (\<lambda>p. fst p \<notin> set ks) xs) = length xs"
    using sum_length_filter_compl [of "\<lambda>p. fst p \<in> set ks" xs] by simp
  ultimately show ?thesis
    by simp
qed

lemma length_stored_live: "length (live_vars m) \<le> length (stored m)"
  by (simp add: live_vars_def)

lemma map_of_skip:
  "k \<notin> fst ` set xs \<Longrightarrow> map_of (xs @ ys) k = map_of ys k"
  by (induction xs) auto

lemma filter_survivors_again:
  "set ks \<subseteq> set js \<Longrightarrow>
   filter (\<lambda>p. fst p \<notin> set ks) (filter (\<lambda>p. fst p \<notin> set js) xs) =
   filter (\<lambda>p. fst p \<notin> set js) xs"
  by (induction xs) auto

subsection \<open>The rewrite phase, half-word by half-word\<close>

lemma write_vars_seq: "write_vars vs a s = write_seq (halfwords vs a) s"
  by (induction vs a s rule: write_vars.induct)
     (auto simp: EEPROM_calcCRC_def split: prod.splits)

lemma rewrite_page_seq:
  "rewrite_page vs s =
     (case EEPROM_format s of (status, s0) \<Rightarrow>
        if status \<noteq> EEPROM_OK then (status, s0) else write_seq (rewrite_plan vs) s0)"
  by (auto simp: rewrite_page_def format_and_header_def rewrite_plan_def write_vars_seq
      split: prod.splits)

lemma write_seq_abort:
  assumes "accepted pre s" and "EEPROM_writeHalfWord a d (issue pre s) = (st, s')"
    and "st \<noteq> EEPROM_OK"
  shows "write_seq (pre @ (a, d) # post) s = (st, s')"
  using assms
proof (induction pre arbitrary: s)
  case Nil
  then show ?case by simp
next
  case (Cons p pre)
  obtain b e where p: "p = (b, e)"
    by (cases p)
  obtain st1 s1 where w: "EEPROM_writeHalfWord b e s = (st1, s1)"
    by (cases "EEPROM_writeHalfWord b e s")
  from Cons.prems(1) p w have ok: "st1 = EEPROM_OK" and acc: "accepted pre s1"
    by simp_all
  from Cons.prems(2) p w have "EEPROM_writeHalfWord a d (issue pre s1) = (st, s')"
    by simp
  from Cons.IH [OF acc this Cons.prems(3)] show ?case
    by (simp add: p w ok)
qed

lemma issue_frame: "x \<notin> fst ` set ws \<Longrightarrow> mem (issue ws s) x = mem s x"
proof (induction ws arbitrary: s)
  case Nil
  then show ?case by simp
next
  case (Cons p ws)
  obtain b e where p: "p = (b, e)"
    by (cases p)
  from Cons.prems p have "x \<noteq> b" and "x \<notin> fst ` set ws"
    by auto
  with Cons.IH [of "snd (EEPROM_writeHalfWord b e s)"] show ?case
    by (simp add: p writeHalfWord_frame)
qed

lemma saveVar_initialized:
  assumes "mem s EEPROM_ADDRESS = EEPROM_MARKER"
    and "length (filter (\<lambda>p. fst p \<noteq> vid) (live_vars (mem s))) < 10"
  shows "EEPROM_saveVar vid val s =
     Inr (rewrite_page (filter (\<lambda>p. fst p \<noteq> vid) (live_vars (mem s)) @ [(vid, val)]) s)"
  using assms by (simp add: EEPROM_saveVar_def isInitialized_eq saveVar_scan_live put_var_def)

lemma saveVars_initialized:
  assumes "mem s EEPROM_ADDRESS = EEPROM_MARKER"
    and "unat count \<le> length ids" and "unat count \<le> length vals"
  shows "EEPROM_saveVars ids vals count s =
     Inr (rewrite_page (take 10
        (filter (\<lambda>p. fst p \<notin> set (take (unat count) ids)) (live_vars (mem s)) @
         take (unat count) (zip ids vals))) s)"
proof -
  let ?vs = "filter (\<lambda>p. fst p \<notin> set (take (unat count) ids)) (live_vars (mem s))"
  let ?new = "take (unat count) (zip ids vals)"
  have "EEPROM_saveVars ids vals count s =
      Inr (rewrite_page (?vs @ take (10 - length ?vs) ?new) s)"
    using assms
    by (simp add: EEPROM_saveVars_def isInitialized_eq saveVars_scan_live saveVars_append_eq)
  then show ?thesis
    by (simp only: take_survivors [OF length_survivors])
qed

lemma saveVar_uninitialized:
  assumes "mem p EEPROM_ADDRESS \<noteq> EEPROM_MARKER" and "format_and_header p = (EEPROM_OK, s)"
  shows "EEPROM_saveVar vid val p = Inr (rewrite_page [(vid, val)] s)"
  using assms by (simp add: EEPROM_saveVar_def isInitialized_eq put_var_def)

lemma saveVars_uninitialized:
  assumes "mem p EEPROM_ADDRESS \<noteq> EEPROM_MARKER" and "format_and_header p = (EEPROM_OK, s)"
    and "unat count \<le> length ids" and "unat count \<le> length vals"
  shows "EEPROM_saveVars ids vals count p =
     Inr (rewrite_page (take 10 (take (unat count) (zip ids vals))) s)"
proof -
  have "EEPROM_saveVars ids vals count p =
      Inr (rewrite_page ([] @ take (10 - length ([] :: vars)) (take (unat count) (zip ids vals))) s)"
    using assms by (simp add: EEPROM_saveVars_def isInitialized_eq saveVars_append_eq)
  then show ?thesis
    by simp
qed

lemma saveVar_fault_iff:
  "EEPROM_saveVar vid val s = Inl OutOfBounds \<longleftrightarrow>
     mem s EEPROM_ADDRESS = EEPROM_MARKER \<and>
     length (filter (\<lambda>p. fst p \<noteq> vid) (live_vars (mem s))) = 10"
proof (cases "mem s EEPROM_ADDRESS = EEPROM_MARKER")
  case True
  have "length (filter (\<lambda>p. fst p \<noteq> vid) (live_vars (mem s))) \<le> 10"
    by (rule length_survivors)
  with True show ?thesis
    by (auto simp: EEPROM_saveVar_def isInitialized_eq saveVar_scan_live put_var_def)
next
  case False
  then show ?thesis
    by (auto simp: EEPROM_saveVar_def isInitialized_eq put_var_def split: prod.splits)
qed

lemmas flash_steps =
  EEPROM_format_def EEPROM_writeHalfWord_def wait_eq EEPROM_unlockFlash_def
  EEPROM_lockFlash_def store16_def start_erase_def next_event_def

subsection \<open>Reading after a save\<close>

text \<open>
  As long as the working set does not overflow, a value saved with \<open>EEPROM_saveVar\<close> is
  the value \<open>EEPROM_readVar\<close> returns for the same id afterwards: the model returns
  \<open>EEPROM_OK\<close> only for calls whose working set, new pair included, holds at most ten
  entries.
\<close>

lemma saveVar_then_readVar:
  assumes "EEPROM_saveVar vid val s = Inr (EEPROM_OK, s')"
  shows "fst (EEPROM_readVar vid s') = val"
proof -
  let ?vs = "filter (\<lambda>p. fst p \<noteq> vid) (live_vars (mem s)) @ [(vid, val)]"
  have "length ?vs \<le> 10"
    using saveVar_OK(2) [OF assms] by simp
  then have "live_vars (mem s') = ?vs"
    using saveVar_OK(1) [OF assms] by (simp only: live_vars_page_image)
  then have "map_of (live_vars (mem s')) vid = Some val"
    by (simp only: map_of_saved)
  then show ?thesis
    by (simp add: readVar_eq)
qed

lemma saveVar_then_readVar_erased:
  "EEPROM_saveVar 1 7 (idle_flash erased) = Inr (EEPROM_OK, idle_flash (page_image [(1, 7)])) \<and>
   fst (EEPROM_readVar 1 (idle_flash (page_image [(1, 7)]))) = 7"
proof -
  have s: "EEPROM_saveVar 1 7 (idle_flash erased) =
      Inr (EEPROM_OK, idle_flash (page_image [(1, 7)]))"
    by (simp add: saveVar_idle)
  from s saveVar_then_readVar [OF s] show ?thesis
    by simp
qed

text \<open>
  The page with an eleventh entry after the ten of \<open>ten_vars\<close>: a scan visits the ten
  slots and stops, so the stored entries are the first ten.
\<close>

lemma stored_eleven:
  "stored (page_image (ten_vars @ [(1, 10)])) = map entry_of ten_vars"
  by (simp add: stored_def used_slots_def upt_10 ten_vars_def page_image_def slot_addr_def
      entry_at_def erased_def EEPROM_MARKER_def)

lemma live_vars_eleven:
  "live_vars (page_image (ten_vars @ [(1, 10)])) = ten_vars"
  by (simp add: live_vars_def stored_eleven o_def)

lemma entry_eleven:
  "entry_at (page_image (ten_vars @ [(1, 10)])) 10 = (1, 10, 11)"
  using page_image_entry [of 10 "ten_vars @ [(1, 10)]"]
  by (simp add: ten_vars_def)

section \<open>The claims\<close>

subsection \<open>C1: a saved value is read back\<close>

text \<open>
  Claim C1 does not hold of the code, by the defect of C2. On an initialised page with ten
  live entries of other ids, \<open>EEPROM_saveVar 1 10\<close> stores the new pair past the end of
  the working set (the fault of the model); the write loop of lines 234 to 252 then runs
  over eleven entries. Run over these eleven entries on ideal hardware, the rewrite phase
  returns \<open>EEPROM_OK\<close> and leaves the new entry in slot 10, which no scan visits:
  \<open>EEPROM_findVar\<close> finds nothing for the id 1 and \<open>EEPROM_readVar\<close> returns
  \<open>0xFFFF\<close>, not the value saved.
\<close>

theorem saveVar_full_page_not_read_back:
  "EEPROM_saveVar 1 10 (idle_flash (page_image ten_vars)) = Inl OutOfBounds \<and>
   rewrite_page (ten_vars @ [(1, 10)]) (idle_flash (page_image ten_vars)) =
     (EEPROM_OK, idle_flash (page_image (ten_vars @ [(1, 10)]))) \<and>
   entry_at (page_image (ten_vars @ [(1, 10)])) 10 = (1, 10, 11) \<and>
   stored (page_image (ten_vars @ [(1, 10)])) = map entry_of ten_vars \<and>
   fst (EEPROM_findVar 1 (idle_flash (page_image (ten_vars @ [(1, 10)])))) = None \<and>
   fst (EEPROM_readVar 1 (idle_flash (page_image (ten_vars @ [(1, 10)])))) = 0xFFFF"
proof -
  have l: "live_vars (page_image ten_vars) = ten_vars"
    by (rule live_vars_page_image) (simp add: ten_vars_def)
  have fault: "EEPROM_saveVar 1 10 (idle_flash (page_image ten_vars)) = Inl OutOfBounds"
    by (simp add: saveVar_idle l) (simp add: ten_vars_def)
  have absent: "map_of ten_vars (1 :: u8) = None"
    by (simp add: ten_vars_def)
  have find: "fst (EEPROM_findVar 1 (idle_flash (page_image (ten_vars @ [(1, 10)])))) = None"
    by (simp add: findVar_None_iff live_vars_eleven absent)
  have read: "fst (EEPROM_readVar 1 (idle_flash (page_image (ten_vars @ [(1, 10)])))) = 0xFFFF"
    by (simp add: readVar_eq live_vars_eleven absent)
  from fault find read show ?thesis
    by (simp add: rewrite_page_idle entry_eleven stored_eleven)
qed

subsection \<open>C2: the capacity of the working set\<close>

text \<open>
  Claim C2 does not hold of \<open>EEPROM_saveVar\<close>. Exactly on an initialised page that holds
  ten live entries of other ids, the scan fills all ten cells of the working set and the
  store of the new pair goes to index 10, past the end of \<open>varIds\<close> and \<open>varValues\<close>;
  nothing is truncated. Such a page is what \<open>EEPROM_saveVars\<close> leaves after saving ten
  ids on an erased page. \<open>EEPROM_saveVars\<close> itself checks \<open>varCount >= 10\<close> before each
  store.
\<close>

theorem saveVar_eleventh_id_overruns:
  "(EEPROM_saveVar vid val s = Inl OutOfBounds \<longleftrightarrow>
      mem s EEPROM_ADDRESS = EEPROM_MARKER \<and>
      length (filter (\<lambda>p. fst p \<noteq> vid) (live_vars (mem s))) = 10) \<and>
   EEPROM_saveVars [20, 21, 22, 23, 24, 25, 26, 27, 28, 29] [0, 1, 2, 3, 4, 5, 6, 7, 8, 9] 10
     (idle_flash erased) = Inr (EEPROM_OK, idle_flash (page_image ten_vars)) \<and>
   EEPROM_saveVar 1 10 (idle_flash (page_image ten_vars)) = Inl OutOfBounds"
proof -
  have l: "live_vars (page_image ten_vars) = ten_vars"
    by (rule live_vars_page_image) (simp add: ten_vars_def)
  have "EEPROM_saveVar 1 10 (idle_flash (page_image ten_vars)) = Inl OutOfBounds"
    by (simp add: saveVar_idle l) (simp add: ten_vars_def)
  moreover have "EEPROM_saveVars [20, 21, 22, 23, 24, 25, 26, 27, 28, 29]
      [0, 1, 2, 3, 4, 5, 6, 7, 8, 9] 10 (idle_flash erased) =
      Inr (EEPROM_OK, idle_flash (page_image ten_vars))"
    by (simp add: saveVars_idle ten_vars_def)
  ultimately show ?thesis
    using saveVar_fault_iff [of vid val s] by simp
qed

subsection \<open>C3: saving a list of variables\<close>

text \<open>
  Claim C3 as stated fails on a full page: with ten live entries of other ids both calls
  of the example return \<open>EEPROM_OK\<close>, none of the new pairs is appended, the page stays
  as it was, and the ids 1, 2 and 3 read as not found.
\<close>

theorem saveVars_full_page_counterexample:
  "EEPROM_saveVars [1, 2, 3] [10, 20, 30] 3 (idle_flash (page_image ten_vars)) =
     Inr (EEPROM_OK, idle_flash (page_image ten_vars)) \<and>
   EEPROM_saveVars [2] [99] 1 (idle_flash (page_image ten_vars)) =
     Inr (EEPROM_OK, idle_flash (page_image ten_vars)) \<and>
   live_vars (page_image ten_vars) = ten_vars \<and>
   fst (EEPROM_readVar 1 (idle_flash (page_image ten_vars))) = 0xFFFF \<and>
   fst (EEPROM_readVar 2 (idle_flash (page_image ten_vars))) = 0xFFFF \<and>
   fst (EEPROM_readVar 3 (idle_flash (page_image ten_vars))) = 0xFFFF"
proof -
  have l: "live_vars (page_image ten_vars) = ten_vars"
    by (rule live_vars_page_image) (simp add: ten_vars_def)
  show ?thesis
    unfolding readVar_eq
    by (simp add: saveVars_idle mem_idle l) (simp add: ten_vars_def)
qed

text \<open>
  Claim C3, as amended. After an \<open>EEPROM_saveVars\<close> that returned \<open>EEPROM_OK\<close> the page
  holds the live entries whose id is not among the first \<open>count\<close> ids of the caller's
  list, followed by the new pairs in order, cut off after ten entries in all: a live entry
  is dropped exactly when its id is in the list, and new pairs are appended only while
  fewer than ten entries are held. On a page with at most seven live entries of ids other
  than 1, 2 and 3, saving \<open>[1,2,3]\<close> with \<open>[10,20,30]\<close> and then \<open>[2]\<close> with \<open>[99]\<close>
  leaves 10, 99 and 30 to be read for the ids 1, 2 and 3.
\<close>

theorem saveVars_supersedes:
  "(unat count \<le> length ids \<and> unat count \<le> length vals \<and>
    EEPROM_saveVars ids vals count s = Inr (EEPROM_OK, s') \<longrightarrow>
      live_vars (mem s') =
        take 10 (filter (\<lambda>p. fst p \<notin> set (take (unat count) ids)) (live_vars (mem s)) @
                 take (unat count) (zip ids vals))) \<and>
   (length (filter (\<lambda>p. fst p \<notin> set [1, 2, 3]) (live_vars (mem s))) \<le> 7 \<and>
    EEPROM_saveVars [1, 2, 3] [10, 20, 30] 3 s = Inr (EEPROM_OK, s1) \<and>
    EEPROM_saveVars [2] [99] 1 s1 = Inr (EEPROM_OK, s2) \<longrightarrow>
      fst (EEPROM_readVar 1 s2) = 10 \<and> fst (EEPROM_readVar 2 s2) = 99 \<and>
      fst (EEPROM_readVar 3 s2) = 30)"
proof (intro conjI impI)
  assume "unat count \<le> length ids \<and> unat count \<le> length vals \<and>
    EEPROM_saveVars ids vals count s = Inr (EEPROM_OK, s')"
  then show "live_vars (mem s') =
        take 10 (filter (\<lambda>p. fst p \<notin> set (take (unat count) ids)) (live_vars (mem s)) @
                 take (unat count) (zip ids vals))"
    using saveVars_OK_stored(1) by blast
next
  assume h: "length (filter (\<lambda>p. fst p \<notin> set [1, 2, 3]) (live_vars (mem s))) \<le> 7 \<and>
    EEPROM_saveVars [1, 2, 3] [10, 20, 30] 3 s = Inr (EEPROM_OK, s1) \<and>
    EEPROM_saveVars [2] [99] 1 s1 = Inr (EEPROM_OK, s2)"
  let ?old = "filter (\<lambda>p. fst p \<notin> set [1, 2, 3 :: u8]) (live_vars (mem s))"
  from h have len: "length ?old \<le> 7"
    and a: "EEPROM_saveVars [1, 2, 3] [10, 20, 30] 3 s = Inr (EEPROM_OK, s1)"
    and b: "EEPROM_saveVars [2] [99] 1 s1 = Inr (EEPROM_OK, s2)"
    by simp_all
  have "live_vars (mem s1) = take 10 (?old @ [(1, 10), (2, 20), (3, 30)])"
    using saveVars_OK_stored(1) [OF _ _ a] by simp
  then have l1: "live_vars (mem s1) = ?old @ [(1, 10), (2, 20), (3, 30)]"
    using len by simp
  have again: "filter (\<lambda>p. fst p \<notin> set [2 :: u8]) ?old = ?old"
    by (rule filter_survivors_again) simp
  have "live_vars (mem s2) =
      take 10 (filter (\<lambda>p. fst p \<notin> set [2]) (live_vars (mem s1)) @ [(2, 99)])"
    using saveVars_OK_stored(1) [OF _ _ b] by simp
  also have "filter (\<lambda>p. fst p \<notin> set [2]) (live_vars (mem s1)) = ?old @ [(1, 10), (3, 30)]"
    unfolding l1 filter_append again by simp
  finally have l2: "live_vars (mem s2) = ?old @ [(1, 10), (3, 30), (2, 99)]"
    using len by simp
  have "k \<in> {1, 2, 3} \<Longrightarrow> k \<notin> fst ` set ?old" for k
    by auto
  then have "map_of (live_vars (mem s2)) k = map_of [(1, 10), (3, 30), (2, 99)] k"
    if "k \<in> {1, 2, 3}" for k
    using that unfolding l2 by (intro map_of_skip) blast
  then have r: "fst (EEPROM_readVar 1 s2) = 10 \<and> fst (EEPROM_readVar 2 s2) = 99 \<and>
      fst (EEPROM_readVar 3 s2) = 30"
    by (simp add: readVar_eq)
  from r show "fst (EEPROM_readVar 1 s2) = 10" by simp
  from r show "fst (EEPROM_readVar 2 s2) = 99" by simp
  from r show "fst (EEPROM_readVar 3 s2) = 30" by simp
qed

theorem saveVars_supersedes_witness:
  "EEPROM_saveVars [1, 2, 3] [10, 20, 30] 3 (idle_flash erased) =
     Inr (EEPROM_OK, idle_flash (page_image [(1, 10), (2, 20), (3, 30)])) \<and>
   EEPROM_saveVars [2] [99] 1 (idle_flash (page_image [(1, 10), (2, 20), (3, 30)])) =
     Inr (EEPROM_OK, idle_flash (page_image [(1, 10), (3, 30), (2, 99)])) \<and>
   live_vars (page_image [(1, 10), (3, 30), (2, 99)]) = [(1, 10), (3, 30), (2, 99)] \<and>
   fst (EEPROM_readVar 1 (idle_flash (page_image [(1, 10), (3, 30), (2, 99)]))) = 10 \<and>
   fst (EEPROM_readVar 2 (idle_flash (page_image [(1, 10), (3, 30), (2, 99)]))) = 99 \<and>
   fst (EEPROM_readVar 3 (idle_flash (page_image [(1, 10), (3, 30), (2, 99)]))) = 30"
proof -
  have l: "live_vars (page_image [(1, 10), (2, 20), (3, 30)]) = [(1, 10), (2, 20), (3, 30)]"
    by (simp add: live_vars_page_image)
  have a: "EEPROM_saveVars [1, 2, 3] [10, 20, 30] 3 (idle_flash erased) =
     Inr (EEPROM_OK, idle_flash (page_image [(1, 10), (2, 20), (3, 30)]))"
    by (simp add: saveVars_idle)
  have b: "EEPROM_saveVars [2] [99] 1 (idle_flash (page_image [(1, 10), (2, 20), (3, 30)])) =
     Inr (EEPROM_OK, idle_flash (page_image [(1, 10), (3, 30), (2, 99)]))"
    by (simp add: saveVars_idle l)
  from saveVars_supersedes [of 3 "[1, 2, 3]" "[10, 20, 30]" "idle_flash erased"
      "idle_flash (page_image [(1, 10), (2, 20), (3, 30)])"
      "idle_flash (page_image [(1, 10), (2, 20), (3, 30)])"
      "idle_flash (page_image [(1, 10), (3, 30), (2, 99)])"] a b
  show ?thesis
    by (simp add: l live_vars_page_image)
qed

subsection \<open>C4: lookup\<close>

text \<open>
  Claim C4. \<open>EEPROM_findVar\<close> reports not-found when the marker is absent, whatever the
  entry slots hold. On an initialised page a found address is that of a visited slot
  (one of the ten, with no erased Id half-word at or before it) whose low 8 bits of Id
  equal the requested id and whose Check is the exclusive-or of Id and Value, no earlier
  slot being such; and not-found means no visited slot is such.
\<close>

theorem findVar_first_match:
  "(mem s EEPROM_ADDRESS \<noteq> EEPROM_MARKER \<longrightarrow> fst (EEPROM_findVar vid s) = None) \<and>
   (mem s EEPROM_ADDRESS = EEPROM_MARKER \<longrightarrow>
      (case fst (EEPROM_findVar vid s) of
         Some a \<Rightarrow>
           \<exists>k. a = slot_addr k \<and> visited (mem s) k \<and> matches vid (mem s) k \<and>
               (\<forall>j<k. \<not> matches vid (mem s) j)
       | None \<Rightarrow> \<forall>k. visited (mem s) k \<longrightarrow> \<not> matches vid (mem s) k))"
proof (intro conjI impI)
  assume "mem s EEPROM_ADDRESS \<noteq> EEPROM_MARKER"
  then show "fst (EEPROM_findVar vid s) = None"
    by (simp add: findVar_eq lookup_spec_def)
next
  assume init: "mem s EEPROM_ADDRESS = EEPROM_MARKER"
  show "case fst (EEPROM_findVar vid s) of
         Some a \<Rightarrow>
           \<exists>k. a = slot_addr k \<and> visited (mem s) k \<and> matches vid (mem s) k \<and>
               (\<forall>j<k. \<not> matches vid (mem s) j)
       | None \<Rightarrow> \<forall>k. visited (mem s) k \<longrightarrow> \<not> matches vid (mem s) k"
  proof (cases "lookup_spec vid (mem s)")
    case None
    with lookup_spec_None [OF None init] show ?thesis
      by (simp add: findVar_eq)
  next
    case (Some a)
    with lookup_spec_Some [OF Some] show ?thesis
      by (simp add: findVar_eq)
  qed
qed

theorem findVar_first_match_witness:
  "fst (EEPROM_findVar 2 (idle_flash (page_image [(1, 7), (2, 9)]))) = Some (slot_addr 1) \<and>
   visited (page_image [(1, 7), (2, 9)]) 1 \<and>
   matches 2 (page_image [(1, 7), (2, 9)]) 1 \<and>
   \<not> matches 2 (page_image [(1, 7), (2, 9)]) 0 \<and>
   fst (EEPROM_findVar 2 (idle_flash erased)) = None"
proof -
  let ?m = "page_image [(1, 7), (2, 9)]"
  have e0: "entry_at ?m 0 = (1, 7, 6)" and e1: "entry_at ?m 1 = (2, 9, 11)"
    using page_image_entry [of 0 "[(1, 7), (2, 9)]"] page_image_entry [of 1 "[(1, 7), (2, 9)]"]
    by simp_all
  have u: "used_slots ?m 0 = [0, 1]"
    using used_slots_page_image [of "[(1, 7), (2, 9)]"] by (simp add: upt_conv_Cons)
  have f: "fst (EEPROM_findVar 2 (idle_flash ?m)) = Some (slot_addr 1)"
    using e0 e1 by (simp add: findVar_eq lookup_spec_def matches_def u entry_at_def)
  have "erased EEPROM_ADDRESS \<noteq> EEPROM_MARKER"
    by (simp add: erased_def EEPROM_MARKER_def)
  with findVar_first_match [of "idle_flash erased" 2]
  have n: "fst (EEPROM_findVar 2 (idle_flash erased)) = None"
    by simp
  from findVar_first_match [of "idle_flash ?m" 2] f
  obtain k where "slot_addr 1 = slot_addr k" "visited ?m k" "matches 2 ?m k"
    "\<forall>j<k. \<not> matches 2 ?m j"
    by auto
  then have "visited ?m 1 \<and> matches 2 ?m 1 \<and> \<not> matches 2 ?m 0"
    by auto
  with f n show ?thesis
    by simp
qed

subsection \<open>C5: one live entry per id\<close>

text \<open>
  Claim C5 as stated fails when the caller's list repeats an id: saving \<open>[1,1]\<close> with
  \<open>[5,6]\<close> on an erased page returns \<open>EEPROM_OK\<close> and leaves two live entries with
  the id 1.
\<close>

theorem saveVars_repeated_id_counterexample:
  "EEPROM_saveVars [1, 1] [5, 6] 2 (idle_flash erased) =
     Inr (EEPROM_OK, idle_flash (page_image [(1, 5), (1, 6)])) \<and>
   live_vars (page_image [(1, 5), (1, 6)]) = [(1, 5), (1, 6)] \<and>
   \<not> distinct (map fst (live_vars (page_image [(1, 5), (1, 6)])))"
  by (simp add: saveVars_idle live_vars_page_image)

text \<open>
  Claim C5, as amended. A save that returns \<open>EEPROM_OK\<close> keeps the ids of the live
  entries pairwise different when they were so before the save and, for
  \<open>EEPROM_saveVars\<close>, the first \<open>count\<close> ids of the caller's list are pairwise different.
  Saving ids that all have a live entry already (one id with \<open>EEPROM_saveVar\<close>, pairwise
  different ids with \<open>EEPROM_saveVars\<close>) does not increase the number of entries in the
  page.
\<close>

theorem save_keeps_ids_unique:
  "(EEPROM_saveVar vid val s = Inr (EEPROM_OK, s') \<and> distinct (map fst (live_vars (mem s))) \<longrightarrow>
      distinct (map fst (live_vars (mem s')))) \<and>
   (unat count \<le> length ids \<and> unat count \<le> length vals \<and>
    EEPROM_saveVars ids vals count s = Inr (EEPROM_OK, s') \<and>
    distinct (map fst (live_vars (mem s))) \<and> distinct (take (unat count) ids) \<longrightarrow>
      distinct (map fst (live_vars (mem s')))) \<and>
   (EEPROM_saveVar vid val s = Inr (EEPROM_OK, s') \<and> vid \<in> fst ` set (live_vars (mem s)) \<longrightarrow>
      length (stored (mem s')) \<le> length (live_vars (mem s)) \<and>
      length (live_vars (mem s)) \<le> length (stored (mem s))) \<and>
   (unat count \<le> length ids \<and> unat count \<le> length vals \<and>
    EEPROM_saveVars ids vals count s = Inr (EEPROM_OK, s') \<and>
    distinct (take (unat count) ids) \<and> set (take (unat count) ids) \<subseteq> fst ` set (live_vars (mem s)) \<longrightarrow>
      length (stored (mem s')) \<le> length (live_vars (mem s)) \<and>
      length (live_vars (mem s)) \<le> length (stored (mem s)))"
proof (intro conjI impI)
  assume "EEPROM_saveVar vid val s = Inr (EEPROM_OK, s') \<and> distinct (map fst (live_vars (mem s)))"
  then have a: "EEPROM_saveVar vid val s = Inr (EEPROM_OK, s')"
    and d: "distinct (map fst (live_vars (mem s)))"
    by simp_all
  have "vid \<notin> fst ` set (filter (\<lambda>p. fst p \<noteq> vid) (live_vars (mem s)))"
    by auto
  with distinct_survivors [OF d, of "\<lambda>p. fst p \<noteq> vid"]
  show "distinct (map fst (live_vars (mem s')))"
    by (simp add: saveVar_OK_stored(1) [OF a])
next
  assume "unat count \<le> length ids \<and> unat count \<le> length vals \<and>
    EEPROM_saveVars ids vals count s = Inr (EEPROM_OK, s') \<and>
    distinct (map fst (live_vars (mem s))) \<and> distinct (take (unat count) ids)"
  then have a: "unat count \<le> length ids" "unat count \<le> length vals"
    "EEPROM_saveVars ids vals count s = Inr (EEPROM_OK, s')"
    and d: "distinct (map fst (live_vars (mem s)))" and n: "distinct (take (unat count) ids)"
    by simp_all
  let ?old = "filter (\<lambda>p. fst p \<notin> set (take (unat count) ids)) (live_vars (mem s))"
  let ?new = "take (unat count) (zip ids vals)"
  have "fst ` set ?old \<inter> fst ` set ?new = {}"
    using set_take_zip_fst [of "unat count" ids vals]
    by (auto simp: fst_set_survivors [of "\<lambda>i. i \<notin> set (take (unat count) ids)"])
  with distinct_survivors [OF d] distinct_take_zip [OF n, of vals]
  have "distinct (map fst (?old @ ?new))"
    by (simp del: take_zip)
  then have "distinct (take 10 (map fst (?old @ ?new)))"
    by (rule distinct_take)
  then show "distinct (map fst (live_vars (mem s')))"
    by (simp only: saveVars_OK_stored(1) [OF a] take_map)
next
  assume "EEPROM_saveVar vid val s = Inr (EEPROM_OK, s') \<and> vid \<in> fst ` set (live_vars (mem s))"
  then have a: "EEPROM_saveVar vid val s = Inr (EEPROM_OK, s')"
    and v: "vid \<in> fst ` set (live_vars (mem s))"
    by simp_all
  have "length (filter (\<lambda>p. fst p \<notin> set [vid]) (live_vars (mem s))) + length [vid]
      \<le> length (live_vars (mem s))"
    using v by (intro superseded_count) simp_all
  then show "length (stored (mem s')) \<le> length (live_vars (mem s))"
    by (simp add: saveVar_OK_stored(2) [OF a])
  show "length (live_vars (mem s)) \<le> length (stored (mem s))"
    by (rule length_stored_live)
next
  assume "unat count \<le> length ids \<and> unat count \<le> length vals \<and>
    EEPROM_saveVars ids vals count s = Inr (EEPROM_OK, s') \<and>
    distinct (take (unat count) ids) \<and> set (take (unat count) ids) \<subseteq> fst ` set (live_vars (mem s))"
  then have a: "unat count \<le> length ids" "unat count \<le> length vals"
    "EEPROM_saveVars ids vals count s = Inr (EEPROM_OK, s')"
    and n: "distinct (take (unat count) ids)"
    and v: "set (take (unat count) ids) \<subseteq> fst ` set (live_vars (mem s))"
    by simp_all
  let ?old = "filter (\<lambda>p. fst p \<notin> set (take (unat count) ids)) (live_vars (mem s))"
  let ?new = "take (unat count) (zip ids vals)"
  have "length (take 10 (?old @ ?new)) \<le> length ?old + length ?new"
    by simp
  also have "length ?new = length (take (unat count) ids)"
    using a(1,2) by simp
  also have "length ?old + length (take (unat count) ids) \<le> length (live_vars (mem s))"
    using n v by (rule superseded_count)
  finally show "length (stored (mem s')) \<le> length (live_vars (mem s))"
    by (simp only: saveVars_OK_stored(2) [OF a] length_map)
  show "length (live_vars (mem s)) \<le> length (stored (mem s))"
    by (rule length_stored_live)
qed

theorem save_keeps_ids_unique_witness:
  "EEPROM_saveVar 1 8 (idle_flash (page_image [(1, 7), (2, 9)])) =
     Inr (EEPROM_OK, idle_flash (page_image [(2, 9), (1, 8)])) \<and>
   distinct (map fst (live_vars (page_image [(2, 9), (1, 8)]))) \<and>
   length (stored (page_image [(2, 9), (1, 8)])) \<le> length (live_vars (page_image [(1, 7), (2, 9)])) \<and>
   EEPROM_saveVars [2, 1] [5, 6] 2 (idle_flash (page_image [(1, 7), (2, 9)])) =
     Inr (EEPROM_OK, idle_flash (page_image [(2, 5), (1, 6)])) \<and>
   distinct (map fst (live_vars (page_image [(2, 5), (1, 6)]))) \<and>
   length (stored (page_image [(2, 5), (1, 6)])) \<le> length (live_vars (page_image [(1, 7), (2, 9)]))"
proof -
  let ?s = "idle_flash (page_image [(1, 7), (2, 9)])"
  have l: "live_vars (page_image [(1, 7), (2, 9)]) = [(1, 7), (2, 9)]"
    by (simp add: live_vars_page_image)
  have a: "EEPROM_saveVar 1 8 ?s = Inr (EEPROM_OK, idle_flash (page_image [(2, 9), (1, 8)]))"
    by (simp add: saveVar_idle l)
  have b: "EEPROM_saveVars [2, 1] [5, 6] 2 ?s =
      Inr (EEPROM_OK, idle_flash (page_image [(2, 5), (1, 6)]))"
    by (simp add: saveVars_idle l)
  from save_keeps_ids_unique [of 1 8 ?s "idle_flash (page_image [(2, 9), (1, 8)])" 0 "[]" "[]"] a
  have c: "distinct (map fst (live_vars (page_image [(2, 9), (1, 8)]))) \<and>
      length (stored (page_image [(2, 9), (1, 8)])) \<le> length (live_vars (page_image [(1, 7), (2, 9)]))"
    by (simp add: l)
  from save_keeps_ids_unique
    [of 0 0 ?s "idle_flash (page_image [(2, 5), (1, 6)])" 2 "[2, 1]" "[5, 6]"] b
  have d: "distinct (map fst (live_vars (page_image [(2, 5), (1, 6)]))) \<and>
      length (stored (page_image [(2, 5), (1, 6)])) \<le> length (live_vars (page_image [(1, 7), (2, 9)]))"
    by (simp add: l)
  from a b c d show ?thesis
    by simp
qed

subsection \<open>C6: entries that fail their check\<close>

text \<open>
  Claim C6. An entry whose Check is not the exclusive-or of its Id and Value is never the
  entry a lookup returns; an id all of whose entries are such is reported absent by
  \<open>EEPROM_findVar\<close>, \<open>EEPROM_readVar\<close> and \<open>EEPROM_varExists\<close>; what \<open>EEPROM_readVar\<close>
  returns depends on the live entries only. A save that returns \<open>EEPROM_OK\<close> leaves exactly
  the live entries that were not superseded, in their order, followed by the new ones.
\<close>

theorem corrupt_entries_invisible:
  "(fst (EEPROM_findVar vid s) = Some a \<longrightarrow>
      (\<exists>k. a = slot_addr k \<and> live (entry_at (mem s) k) \<and> low_id (entry_at (mem s) k) = vid)) \<and>
   ((\<forall>e \<in> set (stored (mem s)). low_id e = vid \<longrightarrow> \<not> live e) \<longrightarrow>
      fst (EEPROM_findVar vid s) = None \<and> fst (EEPROM_readVar vid s) = 0xFFFF \<and>
      fst (EEPROM_varExists vid s) = 0) \<and>
   fst (EEPROM_readVar vid s) = (case map_of (live_vars (mem s)) vid of None \<Rightarrow> 0xFFFF | Some v \<Rightarrow> v) \<and>
   (EEPROM_saveVar vid val s = Inr (EEPROM_OK, s') \<longrightarrow>
      stored (mem s') =
        map entry_of (filter (\<lambda>p. fst p \<noteq> vid) (live_vars (mem s)) @ [(vid, val)])) \<and>
   (unat count \<le> length ids \<and> unat count \<le> length vals \<and>
    EEPROM_saveVars ids vals count s = Inr (EEPROM_OK, s') \<longrightarrow>
      stored (mem s') =
        map entry_of
          (filter (\<lambda>p. fst p \<notin> set (take (unat count) ids)) (live_vars (mem s)) @
           take (10 - length (filter (\<lambda>p. fst p \<notin> set (take (unat count) ids)) (live_vars (mem s))))
             (take (unat count) (zip ids vals))))"
proof (intro conjI impI)
  assume "fst (EEPROM_findVar vid s) = Some a"
  then have "lookup_spec vid (mem s) = Some a"
    by (simp add: findVar_eq)
  from lookup_spec_Some [OF this]
  show "\<exists>k. a = slot_addr k \<and> live (entry_at (mem s) k) \<and> low_id (entry_at (mem s) k) = vid"
    using matches_live by blast
next
  assume "\<forall>e \<in> set (stored (mem s)). low_id e = vid \<longrightarrow> \<not> live e"
  then have n: "map_of (live_vars (mem s)) vid = None"
    by (rule map_of_live_vars_None)
  show "fst (EEPROM_findVar vid s) = None"
    using n by (simp add: findVar_None_iff)
  show "fst (EEPROM_readVar vid s) = 0xFFFF"
    using n by (simp add: readVar_eq)
  show "fst (EEPROM_varExists vid s) = 0"
    using n by (simp add: varExists_eq)
next
  show "fst (EEPROM_readVar vid s) =
      (case map_of (live_vars (mem s)) vid of None \<Rightarrow> 0xFFFF | Some v \<Rightarrow> v)"
    by (simp add: readVar_eq)
next
  assume "EEPROM_saveVar vid val s = Inr (EEPROM_OK, s')"
  then show "stored (mem s') =
      map entry_of (filter (\<lambda>p. fst p \<noteq> vid) (live_vars (mem s)) @ [(vid, val)])"
    by (rule saveVar_OK_stored(2))
next
  assume "unat count \<le> length ids \<and> unat count \<le> length vals \<and>
    EEPROM_saveVars ids vals count s = Inr (EEPROM_OK, s')"
  then have a: "unat count \<le> length ids" "unat count \<le> length vals"
    "EEPROM_saveVars ids vals count s = Inr (EEPROM_OK, s')"
    by simp_all
  show "stored (mem s') =
        map entry_of
          (filter (\<lambda>p. fst p \<notin> set (take (unat count) ids)) (live_vars (mem s)) @
           take (10 - length (filter (\<lambda>p. fst p \<notin> set (take (unat count) ids)) (live_vars (mem s))))
             (take (unat count) (zip ids vals)))"
    using saveVars_OK_stored(2) [OF a]
    by (simp only: take_survivors [OF length_survivors])
qed

theorem corrupt_entries_invisible_witness:
  "stored dented = [(1, 7, 6), (2, 8, 11), (3, 5, 6)] \<and>
   fst (EEPROM_findVar 2 (idle_flash dented)) = None \<and>
   fst (EEPROM_readVar 2 (idle_flash dented)) = 0xFFFF \<and>
   fst (EEPROM_varExists 2 (idle_flash dented)) = 0 \<and>
   fst (EEPROM_readVar 3 (idle_flash dented)) = 5 \<and>
   EEPROM_saveVar 4 1 (idle_flash dented) =
     Inr (EEPROM_OK, idle_flash (page_image [(1, 7), (3, 5), (4, 1)])) \<and>
   stored (page_image [(1, 7), (3, 5), (4, 1)]) = [(1, 7, 6), (3, 5, 6), (4, 1, 5)]"
proof -
  have absent: "\<forall>e \<in> set (stored (mem (idle_flash dented))). low_id e = 2 \<longrightarrow> \<not> live e"
    by (simp add: stored_dented)
  have save: "EEPROM_saveVar 4 1 (idle_flash dented) =
      Inr (EEPROM_OK, idle_flash (page_image [(1, 7), (3, 5), (4, 1)]))"
    by (simp add: saveVar_idle live_vars_dented)
  from corrupt_entries_invisible [of 2 "idle_flash dented" _ 1 _ 0 "[]" "[]"] absent
  have a: "fst (EEPROM_findVar 2 (idle_flash dented)) = None \<and>
      fst (EEPROM_readVar 2 (idle_flash dented)) = 0xFFFF \<and>
      fst (EEPROM_varExists 2 (idle_flash dented)) = 0"
    by blast
  from corrupt_entries_invisible [of 3 "idle_flash dented" _ 1 _ 0 "[]" "[]"]
  have b: "fst (EEPROM_readVar 3 (idle_flash dented)) = 5"
    by (simp add: live_vars_dented)
  from corrupt_entries_invisible
    [of 4 "idle_flash dented" _ 1 "idle_flash (page_image [(1, 7), (3, 5), (4, 1)])" 0 "[]" "[]"] save
  have c: "stored (page_image [(1, 7), (3, 5), (4, 1)]) = [(1, 7, 6), (3, 5, 6), (4, 1, 5)]"
    by (simp add: live_vars_dented)
  from a b c save show ?thesis
    by (simp add: stored_dented)
qed

subsection \<open>C7: format\<close>

text \<open>
  Claim C7. When \<open>EEPROM_format\<close> returns \<open>EEPROM_OK\<close>, the first half-word of the page
  reads back as the erased pattern \<open>0xFFFF\<close>, so the page is uninitialised, and for every
  id \<open>EEPROM_readVar\<close> returns \<open>0xFFFF\<close> and \<open>EEPROM_varExists\<close> returns 0.
\<close>

theorem format_leaves_uninitialized:
  assumes "EEPROM_format s = (EEPROM_OK, s')"
  shows "mem s' EEPROM_ADDRESS = 0xFFFF \<and> fst (EEPROM_isInitialized s') = 0 \<and>
         fst (EEPROM_readVar vid s') = 0xFFFF \<and> fst (EEPROM_varExists vid s') = 0"
proof -
  have first: "mem s' EEPROM_ADDRESS = 0xFFFF"
    using assms by (rule format_OK_first)
  then have "mem s' EEPROM_ADDRESS \<noteq> EEPROM_MARKER"
    by (simp add: EEPROM_MARKER_def)
  then have "live_vars (mem s') = []"
    by (simp add: live_vars_def)
  with first show ?thesis
    by (simp add: isInitialized_eq readVar_eq varExists_eq EEPROM_MARKER_def)
qed

theorem format_leaves_uninitialized_witness:
  "EEPROM_format (idle_flash (page_image [(1, 7)])) = (EEPROM_OK, idle_flash erased) \<and>
   mem (idle_flash erased) EEPROM_ADDRESS = 0xFFFF \<and>
   fst (EEPROM_isInitialized (idle_flash erased)) = 0 \<and>
   fst (EEPROM_readVar 1 (idle_flash erased)) = 0xFFFF \<and>
   fst (EEPROM_varExists 1 (idle_flash erased)) = 0"
  using format_leaves_uninitialized [OF format_idle [of "page_image [(1, 7)]"], of 1]
  by (simp add: format_idle)

subsection \<open>C8: a failing half-word ends the rewrite\<close>

text \<open>
  Claim C8. The rewrite phase programs the half-words of \<open>rewrite_plan\<close> one after the
  other. When every half-word before \<open>(a, d)\<close> was programmed with status \<open>EEPROM_OK\<close> and
  \<open>EEPROM_writeHalfWord a d\<close> then returns another status (a timeout or a readback
  mismatch), the rewrite returns \<open>EEPROM_ERROR\<close> in the very state that call left: nothing
  is retried and no later half-word is programmed, so every cell outside the half-words
  tried so far is as the erase left it. That is what \<open>EEPROM_saveVar\<close> and
  \<open>EEPROM_saveVars\<close> return, on an initialised page \<open>s\<close> as well as on an uninitialised
  page \<open>p\<close> whose first header was written.
\<close>

theorem rewrite_aborts_at_first_failure:
  assumes "EEPROM_format s = (EEPROM_OK, s0)"
    and "rewrite_plan vs = pre @ (a, d) # post"
    and "accepted pre s0"
    and "EEPROM_writeHalfWord a d (issue pre s0) = (st, s')"
    and "st \<noteq> EEPROM_OK"
  shows "rewrite_page vs s = (EEPROM_ERROR, s') \<and>
    (\<forall>x. x \<notin> fst ` set pre \<and> x \<noteq> a \<longrightarrow> mem s' x = mem s0 x) \<and>
    (mem s EEPROM_ADDRESS = EEPROM_MARKER \<and>
     length (filter (\<lambda>p. fst p \<noteq> vid) (live_vars (mem s))) < 10 \<and>
     vs = filter (\<lambda>p. fst p \<noteq> vid) (live_vars (mem s)) @ [(vid, val)] \<longrightarrow>
       EEPROM_saveVar vid val s = Inr (EEPROM_ERROR, s')) \<and>
    (mem s EEPROM_ADDRESS = EEPROM_MARKER \<and>
     unat count \<le> length ids \<and> unat count \<le> length vals \<and>
     vs = take 10 (filter (\<lambda>p. fst p \<notin> set (take (unat count) ids)) (live_vars (mem s)) @
                   take (unat count) (zip ids vals)) \<longrightarrow>
       EEPROM_saveVars ids vals count s = Inr (EEPROM_ERROR, s')) \<and>
    (mem p EEPROM_ADDRESS \<noteq> EEPROM_MARKER \<and> format_and_header p = (EEPROM_OK, s) \<and>
     vs = [(vid, val)] \<longrightarrow>
       EEPROM_saveVar vid val p = Inr (EEPROM_ERROR, s')) \<and>
    (mem p EEPROM_ADDRESS \<noteq> EEPROM_MARKER \<and> format_and_header p = (EEPROM_OK, s) \<and>
     unat count \<le> length ids \<and> unat count \<le> length vals \<and>
     vs = take 10 (take (unat count) (zip ids vals)) \<longrightarrow>
       EEPROM_saveVars ids vals count p = Inr (EEPROM_ERROR, s'))"
proof -
  have st: "st = EEPROM_ERROR"
    using writeHalfWord_status [of a d "issue pre s0"] assms(4,5) by simp
  have "write_seq (rewrite_plan vs) s0 = (st, s')"
    unfolding assms(2) using assms(3,4,5) by (rule write_seq_abort)
  then have r: "rewrite_page vs s = (EEPROM_ERROR, s')"
    by (simp add: rewrite_page_seq assms(1) st)
  have "mem s' x = mem s0 x" if "x \<notin> fst ` set pre" and "x \<noteq> a" for x
  proof -
    have "mem s' x = mem (issue pre s0) x"
      using writeHalfWord_frame [OF that(2), of d "issue pre s0"] assms(4) by simp
    then show ?thesis
      by (simp add: issue_frame [OF that(1)])
  qed
  with r show ?thesis
    by (auto simp: saveVar_initialized saveVars_initialized saveVar_uninitialized
        saveVars_uninitialized)
qed

theorem rewrite_aborts_at_first_failure_witness:
  "rewrite_page [(1, 7), (2, 9)] glitchy = (EEPROM_ERROR, idle_flash (page_image [])) \<and>
   EEPROM_saveVar 2 9 glitchy = Inr (EEPROM_ERROR, idle_flash (page_image [])) \<and>
   fst (EEPROM_readVar 1 (idle_flash (page_image []))) = 0xFFFF"
proof -
  let ?s0 = "\<lparr>mem = erased, busy = 0, lock = True, pg = False, per = False,
              env = [Completes 0, Completes 0, Fizzles 0]\<rparr>"
  let ?pre = "[(EEPROM_ADDRESS, EEPROM_MARKER), (EEPROM_ADDRESS + 2, 0)]"
  let ?post = "[(EEPROM_ADDRESS + 6, 7), (EEPROM_ADDRESS + 8, 6), (EEPROM_ADDRESS + 10, 2),
                (EEPROM_ADDRESS + 12, 9), (EEPROM_ADDRESS + 14, 11 :: u16)]"
  have f: "EEPROM_format glitchy = (EEPROM_OK, ?s0)"
    by (simp add: glitchy_def flash_steps erased_def)
  have plan: "rewrite_plan [(1, 7), (2, 9)] = ?pre @ (EEPROM_ADDRESS + 4, 1) # ?post"
    by (simp add: rewrite_plan_def)
  have acc: "accepted ?pre ?s0"
    by (simp add: flash_steps erased_def)
  have w: "EEPROM_writeHalfWord (EEPROM_ADDRESS + 4) 1 (issue ?pre ?s0) =
      (EEPROM_ERROR, idle_flash (page_image []))"
    by (simp add: flash_steps erased_def idle_flash_def page_image_def)
  have l: "live_vars (mem glitchy) = [(1, 7)]"
    by (simp add: glitchy_def live_vars_page_image)
  have m: "mem glitchy EEPROM_ADDRESS = EEPROM_MARKER"
    by (simp add: glitchy_def)
  have "live_vars (page_image []) = []"
    by (simp add: live_vars_page_image)
  then have r: "fst (EEPROM_readVar 1 (idle_flash (page_image []))) = 0xFFFF"
    by (simp add: readVar_eq)
  from rewrite_aborts_at_first_failure
    [OF f plan acc w, where vid = 2 and val = 9 and count = 0 and ids = "[]" and vals = "[]"
      and p = glitchy] l m r
  show ?thesis
    by simp
qed

subsection \<open>C9: stored ids fit in eight bits\<close>

text \<open>
  Claim C9. After a save that returned \<open>EEPROM_OK\<close> the entries a scan visits are exactly
  the entries written, the Id half-word of each is below \<open>0x100\<close> and so differs from the
  end-of-data pattern \<open>0xFFFF\<close>, and every entry slot of the page holds either such an
  Id or the erased pattern. An entry kept from a page where its Id had a non-zero high
  byte is written back with the high byte zero.
\<close>

theorem saved_ids_below_0x100:
  assumes "EEPROM_saveVar vid val s = Inr (EEPROM_OK, s') \<or>
           unat count \<le> length ids \<and> unat count \<le> length vals \<and>
           EEPROM_saveVars ids vals count s = Inr (EEPROM_OK, s')"
  shows "(\<exists>ws. length ws \<le> 10 \<and> mem s' = page_image ws \<and> stored (mem s') = map entry_of ws) \<and>
         (\<forall>e \<in> set (stored (mem s')). fst e < 0x100 \<and> fst e \<noteq> 0xFFFF) \<and>
         (\<forall>k. mem s' (slot_addr k) < 0x100 \<or> mem s' (slot_addr k) = 0xFFFF)"
proof -
  have "\<exists>ws. length ws \<le> 10 \<and> mem s' = page_image ws \<and> stored (mem s') = map entry_of ws"
    using assms
  proof
    assume a: "EEPROM_saveVar vid val s = Inr (EEPROM_OK, s')"
    let ?vs = "filter (\<lambda>p. fst p \<noteq> vid) (live_vars (mem s)) @ [(vid, val)]"
    have "length ?vs \<le> 10"
      using saveVar_OK(2) [OF a] by simp
    with saveVar_OK(1) [OF a] saveVar_OK_stored(2) [OF a] show ?thesis
      by blast
  next
    assume "unat count \<le> length ids \<and> unat count \<le> length vals \<and>
           EEPROM_saveVars ids vals count s = Inr (EEPROM_OK, s')"
    then have a: "unat count \<le> length ids" "unat count \<le> length vals"
      "EEPROM_saveVars ids vals count s = Inr (EEPROM_OK, s')"
      by simp_all
    let ?vs = "take 10
           (filter (\<lambda>p. fst p \<notin> set (take (unat count) ids)) (live_vars (mem s)) @
            take (unat count) (zip ids vals))"
    have "length ?vs \<le> 10"
      by simp
    with saveVars_OK [OF a] saveVars_OK_stored(2) [OF a] show ?thesis
      by blast
  qed
  then obtain ws where ws: "length ws \<le> 10" "mem s' = page_image ws"
    "stored (mem s') = map entry_of ws"
    by blast
  have "\<forall>e \<in> set (stored (mem s')). fst e < 0x100 \<and> fst e \<noteq> 0xFFFF"
    using entry_of_id_small [of _ ws] ws(3) by simp
  moreover have "\<forall>k. mem s' (slot_addr k) < 0x100 \<or> mem s' (slot_addr k) = 0xFFFF"
    using page_image_slot [OF ws(1)] ws(2) by simp
  ultimately show ?thesis
    using ws by blast
qed

theorem saved_ids_below_0x100_witness:
  "stored wide_id_page = [(0x0105, 3, 0x0106)] \<and>
   EEPROM_saveVar 255 7 (idle_flash wide_id_page) =
     Inr (EEPROM_OK, idle_flash (page_image [(5, 3), (255, 7)])) \<and>
   stored (page_image [(5, 3), (255, 7)]) = [(0x0005, 3, 0x0006), (0x00FF, 7, 0x00F8)] \<and>
   (\<exists>ws. length ws \<le> 10 \<and> page_image [(5, 3), (255, 7)] = page_image ws \<and>
         stored (page_image [(5, 3), (255, 7)]) = map entry_of ws) \<and>
   (\<forall>k. page_image [(5, 3), (255, 7)] (slot_addr k) < 0x100 \<or>
        page_image [(5, 3), (255, 7)] (slot_addr k) = 0xFFFF)"
proof -
  have s: "EEPROM_saveVar 255 7 (idle_flash wide_id_page) =
      Inr (EEPROM_OK, idle_flash (page_image [(5, 3), (255, 7)]))"
    by (simp add: saveVar_idle live_vars_wide_id_page)
  have "stored (page_image [(5, 3), (255, 7)]) = [(0x0005, 3, 0x0006), (0x00FF, 7, 0x00F8)]"
    by (simp add: stored_page_image)
  with s saved_ids_below_0x100 [of 255 7 "idle_flash wide_id_page" _ 0 "[]" "[]", OF disjI1, OF s]
  show ?thesis
    by (simp add: stored_wide_id_page)
qed

subsection \<open>C10: reading changes nothing\<close>

text \<open>
  Claim C10. \<open>EEPROM_readVar\<close>, \<open>EEPROM_varExists\<close>, \<open>EEPROM_findVar\<close> and
  \<open>EEPROM_isInitialized\<close> only read: the flash state they hand back, page and controller
  registers, is the state they were given.
\<close>

theorem reads_leave_flash_unchanged:
  "snd (EEPROM_readVar vid s) = s \<and> snd (EEPROM_varExists vid s) = s \<and>
   snd (EEPROM_findVar vid s) = s \<and> snd (EEPROM_isInitialized s) = s"
proof -
  have init: "snd (EEPROM_isInitialized s) = s"
    by (simp add: EEPROM_isInitialized_def)
  have "snd (findVar_loop 0 (slot_addr 0) vid s) = s"
    by (simp add: findVar_loop_eq)
  then have find: "snd (EEPROM_findVar vid s) = s"
    by (simp add: EEPROM_findVar_def EEPROM_isInitialized_def slot_addr_0)
  have "snd (EEPROM_readVar vid s) = s"
    using find by (cases "EEPROM_findVar vid s" rule: prod.exhaust [case_names Pair])
      (auto simp: EEPROM_readVar_def split: option.splits)
  moreover have "snd (EEPROM_varExists vid s) = s"
    using find by (auto simp: EEPROM_varExists_def split: prod.splits option.splits)
  ultimately show ?thesis
    using init find by simp
qed

theorem reads_leave_flash_unchanged_witness:
  "snd (EEPROM_readVar 1 (idle_flash (page_image [(1, 7)]))) = idle_flash (page_image [(1, 7)]) \<and>
   snd (EEPROM_varExists 1 (idle_flash (page_image [(1, 7)]))) = idle_flash (page_image [(1, 7)]) \<and>
   snd (EEPROM_findVar 1 (idle_flash (page_image [(1, 7)]))) = idle_flash (page_image [(1, 7)]) \<and>
   snd (EEPROM_isInitialized (idle_flash (page_image [(1, 7)]))) = idle_flash (page_image [(1, 7)])"
  by (rule reads_leave_flash_unchanged)

end
